theory Spec2Isabelle
  imports Main "HOL-Library.Word"
begin

section \<open>C memory as the functions of \<^verbatim>\<open>iri.c\<close> use it\<close>

text \<open>
  \<^verbatim>\<open>iri.c\<close> works on \<^verbatim>\<open>char *\<close> strings that it allocates, copies and releases by
  hand, so the model keeps an explicit store. A pointer is \<open>Null\<close> or a block together
  with a byte offset; offsets and all \<^verbatim>\<open>size_t\<close> variables are 64-bit words, so that
  \<^verbatim>\<open>outlen--\<close> and \<^verbatim>\<open>s + len - outlen - done\<close> wrap as they do on an LP64 machine. Every
  access outside a live block is a \<open>fault\<close>: the model stops there, as the behaviour of
  the C program is undefined from that point on.

  The bytes of a block that \<^verbatim>\<open>xmalloc\<close> returns are not specified by C. The heap carries
  them as the field \<open>junk\<close> (block, offset to byte), so every statement proved for all
  heaps holds for every initial content of fresh memory.
\<close>

type_synonym size_t = "64 word"

datatype ptr = Null | Ptr nat size_t

datatype fault = NullDeref | Dangling | OutOfBounds | InvalidFree

record heap =
  blocks :: "nat \<Rightarrow> string option"
  next_blk :: nat
  junk :: "nat \<Rightarrow> nat \<Rightarrow> char"

definition NUL :: char where
  "NUL = CHR 0x00"

fun ptr_add :: "ptr \<Rightarrow> size_t \<Rightarrow> ptr" where
  "ptr_add Null n = Null"
| "ptr_add (Ptr b off) n = Ptr b (off + n)"

text \<open>\<^verbatim>\<open>xmalloc (n)\<close>: a fresh block of \<open>n\<close> bytes with unspecified contents.\<close>

definition xmalloc :: "size_t \<Rightarrow> 'h heap_scheme \<Rightarrow> ptr \<times> 'h heap_scheme" where
  "xmalloc n h =
     (let b = next_blk h in
      (Ptr b 0, h\<lparr>blocks := (blocks h)(b \<mapsto> map (junk h b) [0..<unat n]), next_blk := Suc b\<rparr>))"

text \<open>\<^verbatim>\<open>xfree (p)\<close>: releases a live block through its base pointer.\<close>

definition xfree :: "ptr \<Rightarrow> 'h heap_scheme \<Rightarrow> fault + 'h heap_scheme" where
  "xfree p h =
     (case p of
        Null \<Rightarrow> Inr h
      | Ptr b off \<Rightarrow>
          (case blocks h b of
             None \<Rightarrow> Inl InvalidFree
           | Some xs \<Rightarrow> if off = 0 then Inr (h\<lparr>blocks := (blocks h)(b := None)\<rparr>) else Inl InvalidFree))"

text \<open>The bytes from \<open>p\<close> to the end of its block.\<close>

definition bytes_from :: "'h heap_scheme \<Rightarrow> ptr \<Rightarrow> fault + string" where
  "bytes_from h p =
     (case p of
        Null \<Rightarrow> Inl NullDeref
      | Ptr b off \<Rightarrow>
          (case blocks h b of
             None \<Rightarrow> Inl Dangling
           | Some xs \<Rightarrow> if unat off \<le> length xs then Inr (drop (unat off) xs) else Inl OutOfBounds))"

text \<open>The C string at \<open>p\<close>: the bytes before the first NUL (what \<^verbatim>\<open>strlen\<close> measures).\<close>

definition c_string :: "'h heap_scheme \<Rightarrow> ptr \<Rightarrow> fault + string" where
  "c_string h p =
     (case bytes_from h p of
        Inl f \<Rightarrow> Inl f
      | Inr ys \<Rightarrow> if NUL \<in> set ys then Inr (takeWhile (\<lambda>c. c \<noteq> NUL) ys) else Inl OutOfBounds)"

text \<open>Writing the bytes \<open>cs\<close> from \<open>p\<close> on; nothing is written when \<open>cs\<close> is empty.\<close>

definition store_bytes :: "ptr \<Rightarrow> string \<Rightarrow> 'h heap_scheme \<Rightarrow> fault + 'h heap_scheme" where
  "store_bytes p cs h =
     (if cs = [] then Inr h
      else case p of
        Null \<Rightarrow> Inl NullDeref
      | Ptr b off \<Rightarrow>
          (case blocks h b of
             None \<Rightarrow> Inl Dangling
           | Some xs \<Rightarrow>
               if unat off + length cs \<le> length xs
               then Inr (h\<lparr>blocks := (blocks h)(b \<mapsto>
                      take (unat off) xs @ cs @ drop (unat off + length cs) xs)\<rparr>)
               else Inl OutOfBounds))"

definition store :: "ptr \<Rightarrow> char \<Rightarrow> 'h heap_scheme \<Rightarrow> fault + 'h heap_scheme" where
  "store p c h = store_bytes p [c] h"

text \<open>\<^verbatim>\<open>memcpy (dst, src, n)\<close>.\<close>

definition memcpy :: "ptr \<Rightarrow> ptr \<Rightarrow> size_t \<Rightarrow> 'h heap_scheme \<Rightarrow> fault + 'h heap_scheme" where
  "memcpy dst src n h =
     (if n = 0 then Inr h
      else case bytes_from h src of
        Inl f \<Rightarrow> Inl f
      | Inr ys \<Rightarrow> if unat n \<le> length ys then store_bytes dst (take (unat n) ys) h else Inl OutOfBounds)"

text \<open>
  \<^verbatim>\<open>strcmp\<close> walks both strings until the first difference or a common NUL; it faults
  only if it runs off a block before either.
\<close>

fun strcmp_walk :: "string \<Rightarrow> string \<Rightarrow> bool option" where
  "strcmp_walk (a # as) (b # bs) =
     (if a \<noteq> b then Some False else if a = NUL then Some True else strcmp_walk as bs)"
| "strcmp_walk as bs = None"

text \<open>\<open>strcmp_eq h p q\<close> is \<^verbatim>\<open>!strcmp (p, q)\<close>.\<close>

definition strcmp_eq :: "'h heap_scheme \<Rightarrow> ptr \<Rightarrow> ptr \<Rightarrow> fault + bool" where
  "strcmp_eq h p q =
     (case bytes_from h p of
        Inl f \<Rightarrow> Inl f
      | Inr xs \<Rightarrow>
          (case bytes_from h q of
             Inl f \<Rightarrow> Inl f
           | Inr ys \<Rightarrow> (case strcmp_walk xs ys of None \<Rightarrow> Inl OutOfBounds | Some r \<Rightarrow> Inr r)))"

text \<open>
  A fresh block holding the string \<open>s\<close> and its terminator: what \<^verbatim>\<open>xstrdup\<close>,
  \<^verbatim>\<open>strdupdelim\<close> and the IDNA library hand out.
\<close>

definition alloc_string :: "string \<Rightarrow> 'h heap_scheme \<Rightarrow> ptr \<times> 'h heap_scheme" where
  "alloc_string s h =
     (let b = next_blk h in
      (Ptr b 0, h\<lparr>blocks := (blocks h)(b \<mapsto> s @ [NUL]), next_blk := Suc b\<rparr>))"

definition xstrdup :: "ptr \<Rightarrow> 'h heap_scheme \<Rightarrow> fault + ptr \<times> 'h heap_scheme" where
  "xstrdup p h = (case c_string h p of Inl f \<Rightarrow> Inl f | Inr s \<Rightarrow> Inr (alloc_string s h))"

section \<open>The transcoder (\<^verbatim>\<open>iconv\<close>) as a parameter\<close>

text \<open>
  \<^verbatim>\<open>iconv\<close> belongs to the C library. One call
  \<^verbatim>\<open>iconv (cd, &in, &inlen, out, &outlen)\<close> is a function of the descriptor's state, the
  input bytes \<^verbatim>\<open>in[0..inlen)\<close> and the room \<^verbatim>\<open>outlen\<close>; it gives the descriptor's new state,
  the number of input bytes consumed, the bytes written at \<^verbatim>\<open>*out\<close>, and \<open>None\<close> when
  the return value is not \<^verbatim>\<open>(size_t)(-1)\<close>, else the \<^verbatim>\<open>errno\<close> it set.
\<close>

datatype errno = EINVAL | EILSEQ | E2BIG | EOTHER int

type_synonym 'cd iconv_fn = "'cd \<Rightarrow> string \<Rightarrow> nat \<Rightarrow> 'cd \<times> nat \<times> string \<times> errno option"

section \<open>\<^verbatim>\<open>do_conversion\<close>\<close>

text \<open>
  The local variables of \<^verbatim>\<open>do_conversion\<close>. \<open>cv_in\<close> holds the bytes \<^verbatim>\<open>in[0..inlen)\<close>, so
  \<^verbatim>\<open>inlen\<close> is its length; \<open>cv_out\<close> is \<^verbatim>\<open>*out\<close>. The counters \<^verbatim>\<open>invalid\<close> and
  \<^verbatim>\<open>tooshort\<close> only decide what is logged and are left out, like the log itself.
\<close>

record 'cd conv =
  cv_cd :: 'cd
  cv_in :: string
  cv_out :: ptr
  cv_outlen :: size_t
  cv_s :: ptr
  cv_len :: size_t
  cv_done :: size_t

datatype ('r, 's) step = Return 'r | Again 's

text \<open>
  One turn of the \<^verbatim>\<open>for (;;)\<close> loop. In the invalid-sequence branch \<^verbatim>\<open>*in\<close> is read
  with no input left only if \<^verbatim>\<open>iconv\<close> reported an invalid sequence in an empty input;
  \<^verbatim>\<open>inlen--\<close> then wraps and the next \<^verbatim>\<open>iconv\<close> call reads past the string, which the
  model reports as \<open>OutOfBounds\<close>.
\<close>

definition do_conversion_step ::
  "'cd iconv_fn \<Rightarrow> 'cd conv \<times> 'h heap_scheme \<Rightarrow>
   (fault + bool \<times> ptr \<times> 'cd \<times> 'h heap_scheme, 'cd conv \<times> 'h heap_scheme) step" where
  "do_conversion_step iconv st =
     (case st of (v, h) \<Rightarrow>
      (case iconv (cv_cd v) (cv_in v) (unat (cv_outlen v)) of (cd1, consumed, produced, err) \<Rightarrow>
       (case store_bytes (cv_out v) produced h of
          Inl f \<Rightarrow> Return (Inl f)
        | Inr h1 \<Rightarrow>
            (let inp = drop consumed (cv_in v);
                 out = ptr_add (cv_out v) (of_nat (length produced));
                 outlen = cv_outlen v - of_nat (length produced)
             in case err of
                  None \<Rightarrow>
                    (case store (ptr_add (cv_s v) (cv_len v - outlen - cv_done v)) NUL h1 of
                       Inl f \<Rightarrow> Return (Inl f)
                     | Inr h2 \<Rightarrow> Return (Inr (True, cv_s v, cd1, h2)))
                | Some e \<Rightarrow>
                    if e = EINVAL \<or> e = EILSEQ then
                      (case inp of
                         [] \<Rightarrow> Return (Inl OutOfBounds)
                       | c # rest \<Rightarrow>
                           (case store out c h1 of
                              Inl f \<Rightarrow> Return (Inl f)
                            | Inr h2 \<Rightarrow>
                                Again (v\<lparr>cv_cd := cd1, cv_in := rest, cv_out := ptr_add out 1,
                                         cv_outlen := outlen - 1\<rparr>, h2)))
                    else if e = E2BIG then
                      (let done = cv_len v;
                           outlen2 = done + of_nat (length inp) * 2
                       in case xmalloc (outlen2 + 1) h1 of (new, h2) \<Rightarrow>
                          (case memcpy new (cv_s v) done h2 of
                             Inl f \<Rightarrow> Return (Inl f)
                           | Inr h3 \<Rightarrow>
                               (case xfree (cv_s v) h3 of
                                  Inl f \<Rightarrow> Return (Inl f)
                                | Inr h4 \<Rightarrow>
                                    Again (v\<lparr>cv_cd := cd1, cv_in := inp, cv_out := ptr_add new done,
                                             cv_outlen := outlen2, cv_s := new, cv_len := outlen2,
                                             cv_done := done\<rparr>, h4))))
                    else Return (Inr (False, out, cd1, h1))))))"

text \<open>
  The loop has no bound of its own: it ends when \<^verbatim>\<open>iconv\<close> succeeds or fails with an
  unhandled \<^verbatim>\<open>errno\<close>. A run that never ends is the value \<open>None\<close>.
\<close>

partial_function (option) do_conversion_loop ::
  "'cd iconv_fn \<Rightarrow> 'cd conv \<times> 'h heap_scheme \<Rightarrow>
   (fault + bool \<times> ptr \<times> 'cd \<times> 'h heap_scheme) option" where
  "do_conversion_loop iconv st =
     (case do_conversion_step iconv st of
        Return r \<Rightarrow> Some r
      | Again st' \<Rightarrow> do_conversion_loop iconv st')"

text \<open>
  \<open>do_conversion iconv cd inp h\<close> is \<^verbatim>\<open>do_conversion (cd, in, inlen, out)\<close> with \<open>inp\<close> the
  bytes \<^verbatim>\<open>in[0..inlen)\<close>. The result holds the return value, the final \<^verbatim>\<open>*out\<close>, the
  descriptor's state and the heap.
\<close>

definition do_conversion ::
  "'cd iconv_fn \<Rightarrow> 'cd \<Rightarrow> string \<Rightarrow> 'h heap_scheme \<Rightarrow>
   (fault + bool \<times> ptr \<times> 'cd \<times> 'h heap_scheme) option" where
  "do_conversion iconv cd inp h =
     (let outlen = of_nat (length inp) * 2
      in case xmalloc (outlen + 1) h of (s, h1) \<Rightarrow>
         do_conversion_loop iconv
           (\<lparr>cv_cd = cd, cv_in = inp, cv_out = s, cv_outlen = outlen, cv_s = s,
             cv_len = outlen, cv_done = 0\<rparr>, h1))"

section \<open>Sample transcoders and heaps\<close>

text \<open>
  A stateless table-driven transcoder that behaves as \<^verbatim>\<open>iconv\<close> does for a single-byte
  source encoding: it converts byte after byte, stops with \<^verbatim>\<open>EILSEQ\<close> at a byte the table
  does not map and with \<^verbatim>\<open>E2BIG\<close> at a byte whose image does not fit the room left.
\<close>

fun table_conv :: "(char \<Rightarrow> string option) \<Rightarrow> string \<Rightarrow> nat \<Rightarrow> nat \<times> string \<times> errno option" where
  "table_conv t [] room = (0, [], None)"
| "table_conv t (c # cs) room =
     (case t c of
        None \<Rightarrow> (0, [], Some EILSEQ)
      | Some img \<Rightarrow>
          if room < length img then (0, [], Some E2BIG)
          else (case table_conv t cs (room - length img) of
                  (n, out, e) \<Rightarrow> (Suc n, img @ out, e)))"

definition table_iconv :: "(char \<Rightarrow> string option) \<Rightarrow> unit iconv_fn" where
  "table_iconv t cd inp room = (case table_conv t inp room of (n, out, e) \<Rightarrow> (cd, n, out, e))"

text \<open>
  Part of TIS-620 to UTF-8: ASCII is kept, 0xA1 (THAI CHARACTER KO KAI, U+0E01) becomes
  the three bytes E0 B8 81, and 0xDB is not assigned.
\<close>

definition tis620 :: "char \<Rightarrow> string option" where
  "tis620 c =
     (if (of_char c :: nat) < 128 then Some [c]
      else if c = CHR 0xA1 then Some [CHR 0xE0, CHR 0xB8, CHR 0x81]
      else None)"

text \<open>A heap holding the given strings as blocks 0, 1, ...; fresh memory reads as \<open>?\<close>.\<close>

definition heap_of :: "string list \<Rightarrow> heap" where
  "heap_of ss =
     \<lparr>blocks = (\<lambda>b. if b < length ss then Some (ss ! b @ [NUL]) else None),
      next_blk = length ss,
      junk = (\<lambda>b i. CHR ''?'')\<rparr>"

section \<open>Character classes and string search\<close>

text \<open>
  Modelled from the spec: \<^verbatim>\<open>c_isspace\<close> and \<^verbatim>\<open>c_isascii\<close> (gnulib's \<^verbatim>\<open>c-ctype\<close>, not among
  the sources). The spec speaks of "whitespace" and "ASCII" characters: the six ASCII
  whitespace characters, and the bytes below 128.
\<close>

definition c_isspace :: "char \<Rightarrow> bool" where
  "c_isspace c =
     (c = CHR '' '' \<or> c = CHR 0x09 \<or> c = CHR 0x0A \<or> c = CHR 0x0B \<or> c = CHR 0x0C \<or> c = CHR 0x0D)"

definition c_isascii :: "char \<Rightarrow> bool" where
  "c_isascii c = ((of_char c :: nat) < 128)"

text \<open>
  \<^verbatim>\<open>strcasestr\<close> and \<^verbatim>\<open>strcasecmp\<close> belong to the C library; they compare after
  \<^verbatim>\<open>tolower\<close>, taken here in the C locale (only A to Z change; the result is the
  character's code, as \<^verbatim>\<open>tolower\<close> gives an \<^verbatim>\<open>int\<close>). \<open>strcasestr\<close> gives the part of the
  haystack from the first match on, as the C function gives a pointer to it.
\<close>

definition c_tolower :: "char \<Rightarrow> nat" where
  "c_tolower c = (if 65 \<le> (of_char c :: nat) \<and> (of_char c :: nat) \<le> 90 then of_char c + 32 else of_char c)"

fun prefix_nocase :: "string \<Rightarrow> string \<Rightarrow> bool" where
  "prefix_nocase [] ys = True"
| "prefix_nocase (x # xs) [] = False"
| "prefix_nocase (x # xs) (y # ys) = (c_tolower x = c_tolower y \<and> prefix_nocase xs ys)"

fun strcasestr :: "string \<Rightarrow> string \<Rightarrow> string option" where
  "strcasestr [] needle = (if needle = [] then Some [] else None)"
| "strcasestr (c # cs) needle =
     (if prefix_nocase needle (c # cs) then Some (c # cs) else strcasestr cs needle)"

text \<open>\<open>strcasecmp_eq a b\<close> is \<^verbatim>\<open>!strcasecmp (a, b)\<close>.\<close>

definition strcasecmp_eq :: "string \<Rightarrow> string \<Rightarrow> bool" where
  "strcasecmp_eq a b = (map c_tolower a = map c_tolower b)"

section \<open>\<^verbatim>\<open>check_encoding_name\<close> and \<^verbatim>\<open>parse_charset\<close>\<close>

text \<open>
  \<^verbatim>\<open>check_encoding_name\<close> reads the C string at its argument; the model takes the
  bytes of that string. The loop stops at the first byte that is not ASCII or is
  whitespace.
\<close>

fun check_encoding_name :: "string \<Rightarrow> bool" where
  "check_encoding_name [] = True"
| "check_encoding_name (c # s) =
     (if \<not> c_isascii c \<or> c_isspace c then False else check_encoding_name s)"

text \<open>
  \<^verbatim>\<open>parse_charset (str)\<close>. \<open>s\<close> is the string at \<^verbatim>\<open>str\<close>, \<open>m\<close> what \<^verbatim>\<open>strcasestr\<close> points
  at, \<open>drop 8 m\<close> the string after \<^verbatim>\<open>str += 8\<close>, and \<open>tok\<close> the bytes the \<^verbatim>\<open>while\<close> loop
  walks over, which \<^verbatim>\<open>strdupdelim\<close> copies into a fresh block.
\<close>

definition parse_charset :: "ptr \<Rightarrow> 'h heap_scheme \<Rightarrow> fault + ptr \<times> 'h heap_scheme" where
  "parse_charset str h =
     (if str = Null then Inr (Null, h)
      else case c_string h str of
        Inl f \<Rightarrow> Inl f
      | Inr s \<Rightarrow>
          if s = [] then Inr (Null, h)
          else (case strcasestr s ''charset='' of
                  None \<Rightarrow> Inr (Null, h)
                | Some m \<Rightarrow>
                    (let tok = takeWhile (\<lambda>c. \<not> c_isspace c) (drop 8 m)
                     in case alloc_string tok h of (charset, h1) \<Rightarrow>
                        if \<not> check_encoding_name tok
                        then (case xfree charset h1 of
                                Inl f \<Rightarrow> Inl f
                              | Inr h2 \<Rightarrow> Inr (Null, h2))
                        else Inr (charset, h1))))"

section \<open>The state of the module and its environment\<close>

text \<open>
  The global variables of \<^verbatim>\<open>iri.c\<close> and the fields of \<^verbatim>\<open>opt\<close> it uses, on top of the
  heap. \<open>locale2utf8\<close> is \<open>None\<close> for a NULL descriptor. \<open>iconv_log\<close> records the
  descriptors opened and closed, in order.
\<close>

datatype iconv_event = IconvOpen string string | IconvClose

record 'cd iri = heap +
  remote :: ptr
  current :: ptr
  utf8_encode :: bool
  ugly_no_encode :: bool
  locale2utf8 :: "'cd option"
  opt_locale :: "string option"
  opt_encoding_remote :: "string option"
  opt_enable_iri :: bool
  iconv_log :: "iconv_event list"

text \<open>
  The library functions the module calls. \<open>iconv_open to from\<close> is \<open>None\<close> for
  \<^verbatim>\<open>(iconv_t)(-1)\<close>; the IDNA functions give their status and, on success, the string
  they allocate.
\<close>

record 'cd env =
  iconv_open :: "string \<Rightarrow> string \<Rightarrow> 'cd option"
  iconv :: "'cd iconv_fn"
  stringprep_locale_charset :: "string option"
  idna_to_ascii_8z :: "string \<Rightarrow> int \<times> string"
  idna_to_unicode_8zlz :: "string \<Rightarrow> int \<times> string"

definition IDNA_SUCCESS :: int where
  "IDNA_SUCCESS = 0"

definition find_locale :: "'cd env \<Rightarrow> string option" where
  "find_locale E = stringprep_locale_charset E"

section \<open>The locale transcoder\<close>

definition open_locale_to_utf8 :: "'cd env \<Rightarrow> 'cd iri \<Rightarrow> bool \<times> 'cd iri" where
  "open_locale_to_utf8 E w =
     (if locale2utf8 w \<noteq> None then (True, w)
      else let w1 = (if opt_locale w = None then w\<lparr>opt_locale := find_locale E\<rparr> else w)
           in case opt_locale w1 of
                None \<Rightarrow> (False, w1)
              | Some l \<Rightarrow>
                  (case iconv_open E ''UTF-8'' l of
                     Some cd \<Rightarrow>
                       (True, w1\<lparr>locale2utf8 := Some cd,
                                 iconv_log := iconv_log w1 @ [IconvOpen ''UTF-8'' l]\<rparr>)
                   | None \<Rightarrow> (False, w1\<lparr>locale2utf8 := None\<rparr>)))"

text \<open>
  \<^verbatim>\<open>locale_to_utf8 (str)\<close>: the pointer returned and the state after the call.
  \<^verbatim>\<open>strcasecmp\<close> reads \<^verbatim>\<open>opt.locale\<close> first, whatever it holds.
\<close>

definition locale_to_utf8 :: "'cd env \<Rightarrow> ptr \<Rightarrow> 'cd iri \<Rightarrow> (fault + ptr \<times> 'cd iri) option" where
  "locale_to_utf8 E str w =
     (case opt_locale w of
        None \<Rightarrow> Some (Inl NullDeref)
      | Some l \<Rightarrow>
          if strcasecmp_eq l ''utf-8'' then Some (Inr (str, w))
          else (case open_locale_to_utf8 E w of (opened, w1) \<Rightarrow>
            if \<not> opened then Some (Inr (str, w1))
            else (case locale2utf8 w1 of
                    None \<Rightarrow> Some (Inl NullDeref)
                  | Some cd \<Rightarrow>
                      (case c_string w1 str of
                         Inl f \<Rightarrow> Some (Inl f)
                       | Inr bytes \<Rightarrow>
                           (case do_conversion (iconv E) cd bytes w1 of
                              None \<Rightarrow> None
                            | Some (Inl f) \<Rightarrow> Some (Inl f)
                            | Some (Inr (ok, new, cd1, w2)) \<Rightarrow>
                                Some (Inr (if ok then new else str,
                                           w2\<lparr>locale2utf8 := Some cd1\<rparr>)))))))"

section \<open>The remote transcoder and the IDN codec\<close>

text \<open>
  \<^verbatim>\<open>remote_to_utf8 (str, new)\<close>; \<open>new0\<close> is what \<^verbatim>\<open>*new\<close> holds at the call. The result
  holds the return value, the final \<^verbatim>\<open>*new\<close> and the state.
\<close>

definition remote_to_utf8 ::
  "'cd env \<Rightarrow> ptr \<Rightarrow> ptr \<Rightarrow> 'cd iri \<Rightarrow> (fault + bool \<times> ptr \<times> 'cd iri) option" where
  "remote_to_utf8 E str new0 w =
     (case (case opt_encoding_remote w of
              Some r \<Rightarrow> Inr (Some r)
            | None \<Rightarrow>
                if current w \<noteq> Null
                then (case c_string w (current w) of Inl f \<Rightarrow> Inl f | Inr r \<Rightarrow> Inr (Some r))
                else Inr None) of
        Inl f \<Rightarrow> Some (Inl f)
      | Inr None \<Rightarrow> Some (Inr (False, new0, w))
      | Inr (Some r) \<Rightarrow>
          (case iconv_open E ''UTF-8'' r of
             None \<Rightarrow> Some (Inr (False, new0, w))
           | Some cd \<Rightarrow>
               (let w1 = w\<lparr>iconv_log := iconv_log w @ [IconvOpen ''UTF-8'' r]\<rparr>
                in case c_string w1 str of
                     Inl f \<Rightarrow> Some (Inl f)
                   | Inr bytes \<Rightarrow>
                       (case do_conversion (iconv E) cd bytes w1 of
                          None \<Rightarrow> None
                        | Some (Inl f) \<Rightarrow> Some (Inl f)
                        | Some (Inr (ret, new, cd1, w2)) \<Rightarrow>
                            (let w3 = w2\<lparr>iconv_log := iconv_log w2 @ [IconvClose]\<rparr>
                             in case strcmp_eq w3 str new of
                                  Inl f \<Rightarrow> Some (Inl f)
                                | Inr same \<Rightarrow>
                                    if same
                                    then (case xfree new w3 of
                                            Inl f \<Rightarrow> Some (Inl f)
                                          | Inr w4 \<Rightarrow> Some (Inr (False, new, w4)))
                                    else Some (Inr (ret, new, w3)))))))"

text \<open>
  The second half of \<^verbatim>\<open>idn_encode\<close>, from the call of \<^verbatim>\<open>idna_to_ascii_8z\<close> on.
\<close>

definition idn_encode_toascii :: "'cd env \<Rightarrow> ptr \<Rightarrow> 'cd iri \<Rightarrow> fault + ptr \<times> 'cd iri" where
  "idn_encode_toascii E host w =
     (case c_string w host of
        Inl f \<Rightarrow> Inl f
      | Inr s \<Rightarrow>
          (case idna_to_ascii_8z E s of (ret, ascii) \<Rightarrow>
             if ret \<noteq> IDNA_SUCCESS then Inr (Null, w) else Inr (alloc_string ascii w)))"

text \<open>
  \<^verbatim>\<open>idn_encode (host, utf8_encoded)\<close>. The local \<^verbatim>\<open>new\<close> is not initialised when
  \<^verbatim>\<open>remote_to_utf8\<close> is called; the model passes \<open>Null\<close> for it.
\<close>

definition idn_encode :: "'cd env \<Rightarrow> ptr \<Rightarrow> bool \<Rightarrow> 'cd iri \<Rightarrow> (fault + ptr \<times> 'cd iri) option" where
  "idn_encode E host utf8_encoded w =
     (if \<not> utf8_encoded
      then (case remote_to_utf8 E host Null w of
              None \<Rightarrow> None
            | Some (Inl f) \<Rightarrow> Some (Inl f)
            | Some (Inr (ok, new, w1)) \<Rightarrow>
                if \<not> ok then Some (Inr (Null, w1)) else Some (idn_encode_toascii E new w1))
      else Some (idn_encode_toascii E host w))"

definition idn_decode :: "'cd env \<Rightarrow> ptr \<Rightarrow> 'cd iri \<Rightarrow> fault + ptr \<times> 'cd iri" where
  "idn_decode E host w =
     (case c_string w host of
        Inl f \<Rightarrow> Inl f
      | Inr s \<Rightarrow>
          (case idna_to_unicode_8zlz E s of (ret, uni) \<Rightarrow>
             if ret \<noteq> IDNA_SUCCESS then Inr (Null, w) else Inr (alloc_string uni w)))"

section \<open>The registry of charsets\<close>

definition get_remote_charset :: "'cd iri \<Rightarrow> ptr" where
  "get_remote_charset w = remote w"

definition get_current_charset :: "'cd iri \<Rightarrow> ptr" where
  "get_current_charset w = current w"

definition set_current_charset :: "ptr \<Rightarrow> 'cd iri \<Rightarrow> fault + 'cd iri" where
  "set_current_charset charset w =
     (case (if current w \<noteq> Null then xfree (current w) w else Inr w) of
        Inl f \<Rightarrow> Inl f
      | Inr w1 \<Rightarrow>
          if charset \<noteq> Null
          then (case xstrdup charset w1 of
                  Inl f \<Rightarrow> Inl f
                | Inr (p, w2) \<Rightarrow> Inr (w2\<lparr>current := p\<rparr>))
          else Inr (w1\<lparr>current := Null\<rparr>))"

text \<open>\<^verbatim>\<open>xstrdup (opt.locale)\<close> reads \<^verbatim>\<open>opt.locale\<close> whatever it holds.\<close>

definition set_current_as_locale :: "'cd iri \<Rightarrow> fault + 'cd iri" where
  "set_current_as_locale w =
     (case (if current w \<noteq> Null then xfree (current w) w else Inr w) of
        Inl f \<Rightarrow> Inl f
      | Inr w1 \<Rightarrow>
          (case opt_locale w1 of
             None \<Rightarrow> Inl NullDeref
           | Some l \<Rightarrow> (case alloc_string l w1 of (p, w2) \<Rightarrow> Inr (w2\<lparr>current := p\<rparr>))))"

definition set_remote_charset :: "ptr \<Rightarrow> 'cd iri \<Rightarrow> fault + 'cd iri" where
  "set_remote_charset charset w =
     (case (if remote w \<noteq> Null then xfree (remote w) w else Inr w) of
        Inl f \<Rightarrow> Inl f
      | Inr w1 \<Rightarrow>
          if charset \<noteq> Null
          then (case xstrdup charset w1 of
                  Inl f \<Rightarrow> Inl f
                | Inr (p, w2) \<Rightarrow> Inr (w2\<lparr>remote := p\<rparr>))
          else Inr (w1\<lparr>remote := Null\<rparr>))"

definition set_remote_as_current :: "'cd iri \<Rightarrow> fault + 'cd iri" where
  "set_remote_as_current w =
     (case (if remote w \<noteq> Null then xfree (remote w) w else Inr w) of
        Inl f \<Rightarrow> Inl f
      | Inr w1 \<Rightarrow>
          if current w1 \<noteq> Null
          then (case xstrdup (current w1) w1 of
                  Inl f \<Rightarrow> Inl f
                | Inr (p, w2) \<Rightarrow> Inr (w2\<lparr>remote := p\<rparr>))
          else Inr (w1\<lparr>remote := Null\<rparr>))"

definition set_utf8_encode :: "bool \<Rightarrow> 'cd iri \<Rightarrow> 'cd iri" where
  "set_utf8_encode encode w = w\<lparr>utf8_encode := encode\<rparr>"

definition reset_utf8_encode :: "'cd iri \<Rightarrow> 'cd iri" where
  "reset_utf8_encode w = set_utf8_encode (opt_enable_iri w) w"

definition get_utf8_encode :: "'cd iri \<Rightarrow> bool" where
  "get_utf8_encode w = utf8_encode w"

definition set_ugly_no_encode :: "bool \<Rightarrow> 'cd iri \<Rightarrow> 'cd iri" where
  "set_ugly_no_encode ugly w = w\<lparr>ugly_no_encode := ugly\<rparr>"

definition get_ugly_no_encode :: "'cd iri \<Rightarrow> bool" where
  "get_ugly_no_encode w = ugly_no_encode w"

text \<open>
  The state at program start (all globals zero) over a heap holding the given strings,
  with the given \<^verbatim>\<open>opt.locale\<close> and \<^verbatim>\<open>opt.encoding_remote\<close>.
\<close>

definition iri_of :: "string list \<Rightarrow> string option \<Rightarrow> string option \<Rightarrow> 'cd iri" where
  "iri_of ss loc enc =
     \<lparr>blocks = (\<lambda>b. if b < length ss then Some (ss ! b @ [NUL]) else None),
      next_blk = length ss,
      junk = (\<lambda>b i. CHR ''?''),
      remote = Null, current = Null, utf8_encode = False, ugly_no_encode = False,
      locale2utf8 = None, opt_locale = loc, opt_encoding_remote = enc,
      opt_enable_iri = True, iconv_log = []\<rparr>"

section \<open>What a caller sees of a returned string\<close>

text \<open>
  \<open>None\<close> when the function returned NULL, else the C string at the returned pointer.
\<close>

definition result_string :: "fault + ptr \<times> 'h heap_scheme \<Rightarrow> (fault + string) option" where
  "result_string r =
     (case r of
        Inl f \<Rightarrow> Some (Inl f)
      | Inr (p, h) \<Rightarrow> if p = Null then None else Some (c_string h p))"

section \<open>Well-formed states\<close>

text \<open>
  A heap is well formed when no block at or beyond \<open>next_blk\<close> is live, so that a new
  block never replaces a live one.
\<close>

definition heap_ok :: "'h heap_scheme \<Rightarrow> bool" where
  "heap_ok h = (\<forall>b. next_blk h \<le> b \<longrightarrow> blocks h b = None)"

fun blk_of :: "ptr \<Rightarrow> nat option" where
  "blk_of Null = None"
| "blk_of (Ptr b off) = Some b"

text \<open>\<open>p\<close> is NULL or the base pointer of a live block that holds a terminated string.\<close>

definition valid_string :: "'h heap_scheme \<Rightarrow> ptr \<Rightarrow> bool" where
  "valid_string h p =
     (case p of
        Null \<Rightarrow> True
      | Ptr b off \<Rightarrow> off = 0 \<and> (case blocks h b of None \<Rightarrow> False | Some xs \<Rightarrow> NUL \<in> set xs))"

text \<open>
  The registry is well formed when \<^verbatim>\<open>remote\<close> and \<^verbatim>\<open>current\<close> are NULL or own a string
  each, in different blocks. The state at program start is well formed (lemma
  \<open>iri_of_ok\<close>) and every function of the module that returns keeps it so (theorem
  \<open>registry_ok_invariant\<close>): these are the states the registry can be in.
\<close>

definition registry_ok :: "'cd iri \<Rightarrow> bool" where
  "registry_ok w =
     (heap_ok w \<and> valid_string w (remote w) \<and> valid_string w (current w)
      \<and> (remote w = Null \<or> remote w \<noteq> current w))"

text \<open>The heap after the block of \<open>p\<close> is released (nothing for NULL).\<close>

definition release :: "ptr \<Rightarrow> 'h heap_scheme \<Rightarrow> 'h heap_scheme" where
  "release p h = (case p of Null \<Rightarrow> h | Ptr b off \<Rightarrow> h\<lparr>blocks := (blocks h)(b := None)\<rparr>)"

text \<open>\<open>h'\<close> differs from \<open>h\<close> in the blocks and the allocation counter at most.\<close>

definition heap_frame :: "'h heap_scheme \<Rightarrow> 'h heap_scheme \<Rightarrow> bool" where
  "heap_frame h h' = (h' = h\<lparr>blocks := blocks h', next_blk := next_blk h'\<rparr>)"

text \<open>
  \<open>h'\<close> comes from \<open>h\<close> by allocating, writing and releasing blocks that \<open>h\<close> did not
  have: the blocks of \<open>h\<close> are as they were, and \<open>h'\<close> is well formed.
\<close>

definition heap_grows :: "'h heap_scheme \<Rightarrow> 'h heap_scheme \<Rightarrow> bool" where
  "heap_grows h h' =
     (heap_frame h h' \<and> heap_ok h' \<and> next_blk h \<le> next_blk h'
      \<and> (\<forall>b. b < next_blk h \<longrightarrow> blocks h' b = blocks h b))"

section \<open>The loop of \<^verbatim>\<open>do_conversion\<close>: invariants and expected output\<close>

text \<open>
  The invariant of the loop of \<^verbatim>\<open>do_conversion\<close>: \<^verbatim>\<open>s\<close> is the base pointer of
  a block allocated since the call.
\<close>

definition conv_inv :: "nat \<Rightarrow> 'cd conv \<times> 'h heap_scheme \<Rightarrow> bool" where
  "conv_inv n0 st = (\<exists>b. cv_s (fst st) = Ptr b 0 \<and> n0 \<le> b \<and> b < next_blk (snd st))"

text \<open>
  The invariant of the loop of \<^verbatim>\<open>do_conversion\<close> for memory: \<^verbatim>\<open>s\<close> and \<^verbatim>\<open>*out\<close> point into
  blocks allocated since the call.
\<close>

definition conv_safe :: "'h heap_scheme \<Rightarrow> 'cd conv \<times> 'h heap_scheme \<Rightarrow> bool" where
  "conv_safe h0 st =
     (heap_grows h0 (snd st)
      \<and> (\<exists>b. cv_s (fst st) = Ptr b 0 \<and> next_blk h0 \<le> b)
      \<and> (\<exists>b off. cv_out (fst st) = Ptr b off \<and> next_blk h0 \<le> b))"

text \<open>
  What a table-driven transcoder should produce for \<open>inp\<close> under the policy of
  \<^verbatim>\<open>do_conversion\<close>: the image of every byte the table maps, and every other byte as it
  is.
\<close>

definition passthrough :: "(char \<Rightarrow> string option) \<Rightarrow> string \<Rightarrow> string" where
  "passthrough t inp = concat (map (\<lambda>c. case t c of Some img \<Rightarrow> img | None \<Rightarrow> [c]) inp)"

text \<open>
  The variables of \<^verbatim>\<open>do_conversion\<close> while the first buffer (block \<open>b\<close>, of \<open>N + 1\<close>
  bytes) is in use and \<open>pos\<close> bytes have been written.
\<close>

definition fit_state :: "nat \<Rightarrow> nat \<Rightarrow> nat \<Rightarrow> string \<Rightarrow> unit conv" where
  "fit_state b N pos inp =
     \<lparr>cv_cd = (), cv_in = inp, cv_out = Ptr b (of_nat pos), cv_outlen = of_nat (N - pos),
      cv_s = Ptr b 0, cv_len = of_nat N, cv_done = 0\<rparr>"

section \<open>Sample states and environments\<close>

text \<open>
  A registry in use: block 0 is a string of the caller's, \<^verbatim>\<open>remote\<close> owns block 1 and
  \<^verbatim>\<open>current\<close> block 2.
\<close>

definition sample_iri :: "unit iri" where
  "sample_iri =
     (iri_of [''ISO-8859-1'', ''KOI8-R'', ''UTF-8''] (Some ''TIS-620'') None)
       \<lparr>remote := Ptr 1 0, current := Ptr 2 0\<rparr>"

text \<open>
  A sample environment: TIS-620 is the one source encoding \<^verbatim>\<open>iconv_open\<close> knows, and a
  small table stands for the IDNA library.
\<close>

definition sample_idna :: "string \<Rightarrow> int \<times> string" where
  "sample_idna s =
     (if list_all c_isascii s then (0, s)
      else if s = [CHR 0xE0, CHR 0xB8, CHR 0x81, CHR ''a''] then (0, ''xn--a-twf'')
      else (1, []))"

definition sample_env :: "unit env" where
  "sample_env =
     \<lparr>iconv_open = (\<lambda>to from. if to = ''UTF-8'' \<and> from = ''TIS-620'' then Some () else None),
      iconv = table_iconv tis620,
      stringprep_locale_charset = Some ''TIS-620'',
      idna_to_ascii_8z = sample_idna,
      idna_to_unicode_8zlz = (\<lambda>s. (0, s))\<rparr>"

text \<open>
  A state at program start whose heap holds the TIS-620 string A1 61 (block 0), with
  \<^verbatim>\<open>opt.locale\<close> and \<^verbatim>\<open>opt.encoding_remote\<close> set to TIS-620.
\<close>

definition sample_host :: "unit iri" where
  "sample_host = iri_of [[CHR 0xA1, CHR ''a'']] (Some ''TIS-620'') (Some ''TIS-620'')"

text \<open>
  The sample environment with an \<^verbatim>\<open>iconv\<close> that fails at once with an \<^verbatim>\<open>errno\<close> that
  \<^verbatim>\<open>do_conversion\<close> does not handle (9 is \<^verbatim>\<open>EBADF\<close>).
\<close>

definition failing_env :: "unit env" where
  "failing_env = sample_env\<lparr>iconv := (\<lambda>cd inp room. (cd, 0, [], Some (EOTHER 9)))\<rparr>"

section \<open>Facts about strings in memory\<close>

lemma NUL_notin_takeWhile: "NUL \<notin> set (takeWhile (\<lambda>c. c \<noteq> NUL) ys)"
  by (induction ys) auto

lemma c_string_no_NUL: "c_string h p = Inr s \<Longrightarrow> NUL \<notin> set s"
  by (auto simp: c_string_def NUL_notin_takeWhile split: sum.splits if_splits)

lemma takeWhile_NUL_id: "NUL \<notin> set s \<Longrightarrow> takeWhile (\<lambda>c. c \<noteq> NUL) (s @ [NUL]) = s"
  by (induction s) auto

lemma c_string_alloc_string:
  "NUL \<notin> set s \<Longrightarrow> alloc_string s h = (p, h') \<Longrightarrow> c_string h' p = Inr s \<and> p \<noteq> Null"
  by (auto simp: alloc_string_def Let_def c_string_def bytes_from_def takeWhile_NUL_id)

lemma xfree_alloc_string:
  "alloc_string s h = (p, h') \<Longrightarrow> \<exists>h2. xfree p h' = Inr h2"
  by (auto simp: alloc_string_def Let_def xfree_def)

section \<open>The charset parser\<close>

lemma strcasestr_set: "strcasestr s n = Some m \<Longrightarrow> set m \<subseteq> set s"
  by (induction s) (auto split: if_splits)

lemma check_encoding_name_tok:
  "\<forall>c\<in>set tok. \<not> c_isspace c \<Longrightarrow> check_encoding_name tok = list_all c_isascii tok"
  by (induction tok) auto

lemma takeWhile_all: "\<forall>c\<in>set (takeWhile P xs). P c"
  by (induction xs) auto

text \<open>
  C3, as the code has it. When the string holds \<^verbatim>\<open>charset=\<close> (in any case) and \<open>tok\<close>
  is what stands between it and the first whitespace or the end, \<^verbatim>\<open>parse_charset\<close>
  returns a copy of \<open>tok\<close> if every byte of \<open>tok\<close> is ASCII, and NULL otherwise. An
  empty \<open>tok\<close> passes that check: the result is then the empty string, not NULL.
\<close>

theorem parse_charset_token:
  assumes "c_string h str = Inr s" and "strcasestr s ''charset='' = Some m"
    and "tok = takeWhile (\<lambda>c. \<not> c_isspace c) (drop 8 m)"
  shows "(tok = [] \<longrightarrow> result_string (parse_charset str h) = Some (Inr []))
       \<and> result_string (parse_charset str h) =
           (if list_all c_isascii tok then Some (Inr tok) else None)"
proof -
  have sne: "s \<noteq> []" using assms(2) by auto
  have pne: "str \<noteq> Null" using assms(1) by (auto simp: c_string_def bytes_from_def)
  have "set tok \<subseteq> set s"
    using strcasestr_set[OF assms(2)] set_takeWhileD[of _ "\<lambda>c. \<not> c_isspace c" "drop 8 m"]
      in_set_dropD[of _ 8 m]
    unfolding assms(3) by blast
  then have nonul: "NUL \<notin> set tok" using c_string_no_NUL[OF assms(1)] by auto
  have chk: "check_encoding_name tok = list_all c_isascii tok"
    unfolding assms(3)
    by (rule check_encoding_name_tok) (use takeWhile_all[of "\<lambda>c. \<not> c_isspace c"] in blast)
  obtain p h1 where al: "alloc_string tok h = (p, h1)" by (cases "alloc_string tok h")
  from c_string_alloc_string[OF nonul al] have cs: "c_string h1 p = Inr tok" and pn: "p \<noteq> Null"
    by auto
  from xfree_alloc_string[OF al] obtain h2 where fr: "xfree p h1 = Inr h2" by auto
  have main: "result_string (parse_charset str h) =
      (if list_all c_isascii tok then Some (Inr tok) else None)"
    using assms(1,2) sne pne al cs pn fr chk assms(3)[symmetric]
    by (simp add: parse_charset_def result_string_def Let_def)
  then show ?thesis by auto
qed

text \<open>The theorem at \<^verbatim>\<open>"text/html; Charset="\<close>: the token is empty, the result is \<^verbatim>\<open>""\<close>.\<close>

theorem parse_charset_token_witness:
  "c_string (heap_of [''text/html; Charset='']) (Ptr 0 0) = Inr ''text/html; Charset=''
   \<and> strcasestr ''text/html; Charset='' ''charset='' = Some ''Charset=''
   \<and> [] = takeWhile (\<lambda>c. \<not> c_isspace c) (drop 8 ''Charset='')
   \<and> result_string (parse_charset (Ptr 0 0) (heap_of [''text/html; Charset=''])) = Some (Inr [])"
proof -
  have a: "c_string (heap_of [''text/html; Charset='']) (Ptr 0 0) = Inr ''text/html; Charset=''"
    by (simp add: heap_of_def c_string_def bytes_from_def NUL_def)
  have b: "strcasestr ''text/html; Charset='' ''charset='' = Some ''Charset=''"
    by (simp add: c_tolower_def)
  have c: "[] = takeWhile (\<lambda>c. \<not> c_isspace c) (drop 8 ''Charset='')"
    by simp
  show ?thesis using a b c parse_charset_token [OF a b c] by simp
qed

text \<open>
  C3 as the spec states it fails: for \<^verbatim>\<open>"charset= "\<close> the code returns the empty string.
\<close>

theorem parse_charset_empty_counterexample:
  "result_string (parse_charset (Ptr 0 0) (heap_of [''charset= ''])) = Some (Inr [])"
  by (simp add: result_string_def parse_charset_def heap_of_def c_string_def bytes_from_def
      NUL_def c_tolower_def c_isspace_def alloc_string_def Let_def)

section \<open>The locale transcoder with \<^verbatim>\<open>opt.locale\<close> unset\<close>

text \<open>
  C9 fails on the code: with \<^verbatim>\<open>opt.locale\<close> NULL, \<^verbatim>\<open>locale_to_utf8\<close> hands NULL to
  \<^verbatim>\<open>strcasecmp\<close> before \<^verbatim>\<open>open_locale_to_utf8\<close> and its guard are reached, whatever the
  string, the environment and the rest of the state are.
\<close>

theorem locale_to_utf8_unset_locale:
  "locale_to_utf8 E str (w\<lparr>opt_locale := None\<rparr>) = Some (Inl NullDeref)"
  by (simp add: locale_to_utf8_def)

section \<open>The registry of charsets: what the setters do\<close>

lemma c_string_other_block:
  "blk_of p \<noteq> Some b \<Longrightarrow> c_string (h\<lparr>blocks := (blocks h)(b := x)\<rparr>) p = c_string h p"
  by (cases p) (auto simp: c_string_def bytes_from_def)

lemma c_string_blocks: "blocks h' = blocks h \<Longrightarrow> c_string h' p = c_string h p"
  by (cases p) (simp_all add: c_string_def bytes_from_def)

lemma c_string_next_blk [simp]: "c_string (h\<lparr>next_blk := n\<rparr>) p = c_string h p"
  by (rule c_string_blocks) simp

lemma c_string_current_upd [simp]: "c_string (h\<lparr>current := n\<rparr>) p = c_string h p"
  by (rule c_string_blocks) simp

lemma c_string_remote_upd [simp]: "c_string (h\<lparr>remote := n\<rparr>) p = c_string h p"
  by (rule c_string_blocks) simp

lemma c_string_live: "c_string h p = Inr s \<Longrightarrow> \<exists>b off xs. p = Ptr b off \<and> blocks h b = Some xs"
  by (cases p) (auto simp: c_string_def bytes_from_def split: option.splits)

lemma heap_ok_live: "heap_ok h \<Longrightarrow> blocks h b = Some xs \<Longrightarrow> b < next_blk h"
  unfolding heap_ok_def by (metis not_le option.distinct(1))

lemma c_string_fresh: "NUL \<notin> set s \<Longrightarrow> c_string (h\<lparr>blocks := (blocks h)(b \<mapsto> s @ [NUL])\<rparr>) (Ptr b 0) = Inr s"
  by (simp add: c_string_def bytes_from_def takeWhile_NUL_id)

lemma xfree_valid: "valid_string h p \<Longrightarrow> (if p \<noteq> Null then xfree p h else Inr h) = Inr (release p h)"
  by (cases p) (auto simp: valid_string_def xfree_def release_def split: option.splits)

lemma c_string_release: "blk_of a \<noteq> blk_of p \<Longrightarrow> c_string (release p h) a = c_string h a"
  by (cases p) (auto simp: release_def c_string_other_block)

lemma set_current_charset_eq:
  assumes "valid_string w (current w)" "c_string w a = Inr A" "blk_of a \<noteq> blk_of (current w)"
  shows "set_current_charset a w =
     Inr ((release (current w) w)\<lparr>blocks := (blocks (release (current w) w))(next_blk w \<mapsto> A @ [NUL]), next_blk := Suc (next_blk w), current := Ptr (next_blk w) 0\<rparr>)"
proof -
  have an: "a \<noteq> Null" using assms(2) c_string_live by fastforce
  have cs: "c_string (release (current w) w) a = Inr A" using assms by (simp add: c_string_release)
  have nb: "next_blk (release (current w) w) = next_blk w" by (cases "current w") (auto simp: release_def)
  show ?thesis
    unfolding set_current_charset_def xfree_valid[OF assms(1)]
    using an cs nb by (simp add: xstrdup_def alloc_string_def Let_def)
qed


lemma set_remote_charset_eq:
  assumes "valid_string w (remote w)" "c_string w a = Inr A" "blk_of a \<noteq> blk_of (remote w)"
  shows "set_remote_charset a w =
     Inr ((release (remote w) w)\<lparr>blocks := (blocks (release (remote w) w))(next_blk w \<mapsto> A @ [NUL]), next_blk := Suc (next_blk w), remote := Ptr (next_blk w) 0\<rparr>)"
proof -
  have an: "a \<noteq> Null" using assms(2) c_string_live by fastforce
  have cs: "c_string (release (remote w) w) a = Inr A" using assms by (simp add: c_string_release)
  have nb: "next_blk (release (remote w) w) = next_blk w" by (cases "remote w") (auto simp: release_def)
  show ?thesis
    unfolding set_remote_charset_def xfree_valid[OF assms(1)]
    using an cs nb by (simp add: xstrdup_def alloc_string_def Let_def)
qed

lemma set_remote_as_current_eq:
  assumes "valid_string w (remote w)" "c_string w (current w) = Inr A" "blk_of (current w) \<noteq> blk_of (remote w)"
  shows "set_remote_as_current w =
     Inr ((release (remote w) w)\<lparr>blocks := (blocks (release (remote w) w))(next_blk w \<mapsto> A @ [NUL]), next_blk := Suc (next_blk w), remote := Ptr (next_blk w) 0\<rparr>)"
proof -
  have an: "current w \<noteq> Null" using assms(2) c_string_live by fastforce
  have cs: "c_string (release (remote w) w) (current w) = Inr A" using assms by (simp add: c_string_release)
  have nb: "next_blk (release (remote w) w) = next_blk w" by (cases "remote w") (auto simp: release_def)
  have cr: "current (release (remote w) w) = current w" by (cases "remote w") (auto simp: release_def)
  show ?thesis
    unfolding set_remote_as_current_def xfree_valid[OF assms(1)]
    using an cs nb cr by (simp add: xstrdup_def alloc_string_def Let_def)
qed

lemma set_current_charset_Null:
  assumes "valid_string w (current w)"
  shows "set_current_charset Null w = Inr ((release (current w) w)\<lparr>current := Null\<rparr>)"
  unfolding set_current_charset_def xfree_valid[OF assms] by simp

lemma set_remote_charset_Null:
  assumes "valid_string w (remote w)"
  shows "set_remote_charset Null w = Inr ((release (remote w) w)\<lparr>remote := Null\<rparr>)"
  unfolding set_remote_charset_def xfree_valid[OF assms] by simp

lemma set_remote_as_current_Null:
  assumes "valid_string w (remote w)" "current w = Null"
  shows "set_remote_as_current w = Inr ((release (remote w) w)\<lparr>remote := Null\<rparr>)"
proof -
  have cr: "current (release (remote w) w) = Null" using assms(2) by (cases "remote w") (auto simp: release_def)
  show ?thesis unfolding set_remote_as_current_def xfree_valid[OF assms(1)] using cr by simp
qed

lemma valid_string_blocks: "blocks h' = blocks h \<Longrightarrow> valid_string h' p = valid_string h p"
  by (cases p) (simp_all add: valid_string_def)

lemma valid_string_live: "valid_string h p \<Longrightarrow> p \<noteq> Null \<Longrightarrow> \<exists>b xs. p = Ptr b 0 \<and> blocks h b = Some xs"
  by (cases p) (auto simp: valid_string_def split: option.splits)

lemma registry_blocks:
  assumes "registry_ok w"
  shows "blk_of (remote w) \<noteq> Some (next_blk w)" "blk_of (current w) \<noteq> Some (next_blk w)"
    "remote w \<noteq> Null \<Longrightarrow> blk_of (remote w) \<noteq> blk_of (current w)"
proof -
  show "blk_of (remote w) \<noteq> Some (next_blk w)"
    using assms heap_ok_live[of w "next_blk w"]
    by (cases "remote w") (auto simp: registry_ok_def valid_string_def split: option.splits)
  show "blk_of (current w) \<noteq> Some (next_blk w)"
    using assms heap_ok_live[of w "next_blk w"]
    by (cases "current w") (auto simp: registry_ok_def valid_string_def split: option.splits)
  show "remote w \<noteq> Null \<Longrightarrow> blk_of (remote w) \<noteq> blk_of (current w)"
    using assms by (cases "remote w"; cases "current w") (auto simp: registry_ok_def valid_string_def)
qed

lemma sample_iri_ok: "registry_ok sample_iri"
  by (simp add: registry_ok_def heap_ok_def valid_string_def sample_iri_def iri_of_def NUL_def)

lemma sample_iri_caller_string: "c_string sample_iri (Ptr 0 0) = Inr ''ISO-8859-1''"
  by (simp add: c_string_def bytes_from_def sample_iri_def iri_of_def NUL_def)

text \<open>
  C6. In every well-formed state of the registry: if \<open>a\<close> points at a string \<open>A\<close>
  that is not the registry's own \<^verbatim>\<open>current\<close>, then \<^verbatim>\<open>set_current_charset (a)\<close> followed
  by \<^verbatim>\<open>set_remote_as_current ()\<close> both return, and \<^verbatim>\<open>get_remote_charset ()\<close> then points
  at a string equal to \<open>A\<close>; and after \<^verbatim>\<open>set_current_charset (NULL)\<close> followed by
  \<^verbatim>\<open>set_remote_as_current ()\<close>, \<^verbatim>\<open>get_remote_charset ()\<close> is NULL.
\<close>

theorem set_current_then_remote_as_current:
  assumes "registry_ok w"
  shows "(c_string w a = Inr A \<and> blk_of a \<noteq> blk_of (current w) \<longrightarrow>
            (\<exists>w1 w2. set_current_charset a w = Inr w1 \<and> set_remote_as_current w1 = Inr w2
                \<and> c_string w2 (get_remote_charset w2) = Inr A))
       \<and> (\<exists>w1 w2. set_current_charset Null w = Inr w1 \<and> set_remote_as_current w1 = Inr w2
                \<and> get_remote_charset w2 = Null)"
proof (intro conjI impI)
  have vc: "valid_string w (current w)" and vr: "valid_string w (remote w)"
    using assms by (auto simp: registry_ok_def)
  note rb = registry_blocks[OF assms]
  {
    assume h: "c_string w a = Inr A \<and> blk_of a \<noteq> blk_of (current w)"
    define w1 where "w1 = (release (current w) w)\<lparr>blocks := (blocks (release (current w) w))(next_blk w \<mapsto> A @ [NUL]), next_blk := Suc (next_blk w), current := Ptr (next_blk w) 0\<rparr>"
    have s1: "set_current_charset a w = Inr w1"
      unfolding w1_def using set_current_charset_eq[OF vc] h by blast
    have nn: "NUL \<notin> set A" using h c_string_no_NUL by blast
    have r1: "remote w1 = remote w" "current w1 = Ptr (next_blk w) 0" "next_blk w1 = Suc (next_blk w)"
      by (cases "current w"; simp add: w1_def release_def)+
    have vr1: "valid_string w1 (remote w1)"
      using vr rb by (cases "remote w"; cases "current w") (auto simp: r1 w1_def release_def valid_string_def)
    have c1: "c_string w1 (current w1) = Inr A"
      unfolding r1 by (cases "current w") (auto simp: w1_def release_def c_string_def bytes_from_def takeWhile_NUL_id nn)
    have d1: "blk_of (current w1) \<noteq> blk_of (remote w1)"
      unfolding r1 using rb(1) by (cases "remote w") auto
    define w2 where "w2 = (release (remote w1) w1)\<lparr>blocks := (blocks (release (remote w1) w1))(next_blk w1 \<mapsto> A @ [NUL]), next_blk := Suc (next_blk w1), remote := Ptr (next_blk w1) 0\<rparr>"
    have s2: "set_remote_as_current w1 = Inr w2"
      unfolding w2_def by (rule set_remote_as_current_eq[OF vr1 c1 d1])
    have "c_string w2 (get_remote_charset w2) = Inr A"
      by (cases "remote w1") (auto simp: get_remote_charset_def w2_def release_def c_string_def bytes_from_def takeWhile_NUL_id nn)
    with s1 s2 show "\<exists>w1 w2. set_current_charset a w = Inr w1 \<and> set_remote_as_current w1 = Inr w2
                \<and> c_string w2 (get_remote_charset w2) = Inr A" by blast
  }
  define w1 where "w1 = (release (current w) w)\<lparr>current := Null\<rparr>"
  have s1: "set_current_charset Null w = Inr w1"
    unfolding w1_def by (rule set_current_charset_Null[OF vc])
  have r1: "remote w1 = remote w" "current w1 = Null"
    by (cases "current w"; simp add: w1_def release_def)+
  have vr1: "valid_string w1 (remote w1)"
    using vr rb by (cases "remote w"; cases "current w") (auto simp: r1 w1_def release_def valid_string_def)
  have s2: "set_remote_as_current w1 = Inr ((release (remote w1) w1)\<lparr>remote := Null\<rparr>)"
    by (rule set_remote_as_current_Null[OF vr1 r1(2)])
  show "\<exists>w1 w2. set_current_charset Null w = Inr w1 \<and> set_remote_as_current w1 = Inr w2
                \<and> get_remote_charset w2 = Null"
    using s1 s2 by (auto simp: get_remote_charset_def)
qed


theorem set_current_then_remote_as_current_witness:
  "registry_ok sample_iri
   \<and> c_string sample_iri (Ptr 0 0) = Inr ''ISO-8859-1''
   \<and> blk_of (Ptr 0 0) \<noteq> blk_of (current sample_iri)
   \<and> (\<exists>w1 w2. set_current_charset (Ptr 0 0) sample_iri = Inr w1
         \<and> set_remote_as_current w1 = Inr w2
         \<and> c_string w2 (get_remote_charset w2) = Inr ''ISO-8859-1'')
   \<and> (\<exists>w1 w2. set_current_charset Null sample_iri = Inr w1
         \<and> set_remote_as_current w1 = Inr w2
         \<and> get_remote_charset w2 = Null)"
proof -
  have d: "blk_of (Ptr 0 0) \<noteq> blk_of (current sample_iri)"
    by (simp add: sample_iri_def)
  show ?thesis
    using sample_iri_ok sample_iri_caller_string d
      set_current_then_remote_as_current [OF sample_iri_ok, of "Ptr 0 0" "''ISO-8859-1''"]
    by blast
qed

lemma heap_ok_release: "heap_ok h \<Longrightarrow> heap_ok (release p h)"
  by (cases p) (auto simp: heap_ok_def release_def)

lemma set_current_charset_frame:
  assumes ok: "registry_ok w"
    and arg: "a = Null \<or> c_string w a = Inr A \<and> blk_of a \<noteq> blk_of (current w)"
  shows "\<exists>w'. set_current_charset a w = Inr w'
          \<and> w' = w\<lparr>blocks := blocks w', next_blk := next_blk w', current := current w'\<rparr>
          \<and> c_string w' (remote w') = c_string w (remote w)
          \<and> registry_ok w'
          \<and> (\<forall>c off. current w = Ptr c off \<longrightarrow> blocks w' c = None)
          \<and> (a = Null \<longrightarrow> current w' = Null)
          \<and> (\<forall>b off. a = Ptr b off \<longrightarrow>
                c_string w' (current w') = Inr A \<and> blk_of (current w') \<noteq> Some b
                \<and> blocks w' b = blocks w b
                \<and> (\<forall>x. c_string (w'\<lparr>blocks := (blocks w')(b := x)\<rparr>) (current w') = Inr A))"
proof (cases "a = Null")
  case True
  have vc: "valid_string w (current w)" using ok by (auto simp: registry_ok_def)
  note rb = registry_blocks[OF ok]
  define w1 where "w1 = (release (current w) w)\<lparr>current := Null\<rparr>"
  have s1: "set_current_charset a w = Inr w1"
    unfolding w1_def True by (rule set_current_charset_Null[OF vc])
  have fr: "w1 = w\<lparr>blocks := blocks w1, next_blk := next_blk w1, current := current w1\<rparr>"
    by (cases "current w") (simp_all add: w1_def release_def)
  have rs: "c_string w1 (remote w1) = c_string w (remote w)"
    using rb ok by (cases "current w"; cases "remote w") (auto simp: w1_def release_def c_string_def bytes_from_def registry_ok_def)
  have ok1: "registry_ok w1"
    using ok rb by (cases "current w"; cases "remote w") (auto simp: w1_def release_def registry_ok_def heap_ok_def valid_string_def)
  have rel: "blocks w1 c = None" if "current w = Ptr c off" for c off
    using that by (simp add: w1_def release_def)
  show ?thesis using s1 fr rs ok1 True rel by (auto simp: w1_def)
next
  case False
  with arg have cs: "c_string w a = Inr A" and d: "blk_of a \<noteq> blk_of (current w)" by auto
  have vc: "valid_string w (current w)" using ok by (auto simp: registry_ok_def)
  note rb = registry_blocks[OF ok]
  obtain b off xs where a: "a = Ptr b off" and live: "blocks w b = Some xs"
    using c_string_live[OF cs] by blast
  have bl: "b < next_blk w" using ok live heap_ok_live by (auto simp: registry_ok_def)
  have nn: "NUL \<notin> set A" using cs c_string_no_NUL by blast
  define w1 where "w1 = (release (current w) w)\<lparr>blocks := (blocks (release (current w) w))(next_blk w \<mapsto> A @ [NUL]), next_blk := Suc (next_blk w), current := Ptr (next_blk w) 0\<rparr>"
  have s1: "set_current_charset a w = Inr w1"
    unfolding w1_def by (rule set_current_charset_eq[OF vc cs d])
  have fr: "w1 = w\<lparr>blocks := blocks w1, next_blk := next_blk w1, current := current w1\<rparr>"
    by (cases "current w") (simp_all add: w1_def release_def)
  have rs: "c_string w1 (remote w1) = c_string w (remote w)"
    using rb ok by (cases "current w"; cases "remote w") (auto simp: w1_def release_def c_string_def bytes_from_def registry_ok_def)
  have ok1: "registry_ok w1"
    using ok rb by (cases "current w"; cases "remote w") (auto simp: w1_def release_def registry_ok_def heap_ok_def valid_string_def)
  have c1: "current w1 = Ptr (next_blk w) 0" by (simp add: w1_def)
  have own: "blocks w1 b = blocks w b"
    using bl d a by (cases "current w") (auto simp: w1_def release_def)
  have priv: "c_string (w1\<lparr>blocks := (blocks w1)(b := x)\<rparr>) (current w1) = Inr A" for x
    using bl by (cases "current w") (auto simp: w1_def release_def c_string_def bytes_from_def takeWhile_NUL_id nn)
  have cur: "c_string w1 (current w1) = Inr A"
    by (cases "current w") (auto simp: w1_def release_def c_string_def bytes_from_def takeWhile_NUL_id nn)
  have rel: "blocks w1 c = None" if "current w = Ptr c off" for c off
    using that rb by (auto simp: w1_def release_def)
  show ?thesis using s1 fr rs ok1 False a own priv cur c1 bl rel by auto
qed

lemma set_remote_charset_frame:
  assumes ok: "registry_ok w"
    and arg: "a = Null \<or> c_string w a = Inr A \<and> blk_of a \<noteq> blk_of (remote w)"
  shows "\<exists>w'. set_remote_charset a w = Inr w'
          \<and> w' = w\<lparr>blocks := blocks w', next_blk := next_blk w', remote := remote w'\<rparr>
          \<and> c_string w' (current w') = c_string w (current w)
          \<and> registry_ok w'
          \<and> (\<forall>c off. remote w = Ptr c off \<longrightarrow> blocks w' c = None)
          \<and> (a = Null \<longrightarrow> remote w' = Null)
          \<and> (\<forall>b off. a = Ptr b off \<longrightarrow>
                c_string w' (remote w') = Inr A \<and> blk_of (remote w') \<noteq> Some b
                \<and> blocks w' b = blocks w b
                \<and> (\<forall>x. c_string (w'\<lparr>blocks := (blocks w')(b := x)\<rparr>) (remote w') = Inr A))"
proof (cases "a = Null")
  case True
  have vc: "valid_string w (remote w)" using ok by (auto simp: registry_ok_def)
  note rb = registry_blocks[OF ok]
  define w1 where "w1 = (release (remote w) w)\<lparr>remote := Null\<rparr>"
  have s1: "set_remote_charset a w = Inr w1"
    unfolding w1_def True by (rule set_remote_charset_Null[OF vc])
  have fr: "w1 = w\<lparr>blocks := blocks w1, next_blk := next_blk w1, remote := remote w1\<rparr>"
    by (cases "remote w") (simp_all add: w1_def release_def)
  have rs: "c_string w1 (current w1) = c_string w (current w)"
    using rb ok by (cases "remote w"; cases "current w") (auto simp: w1_def release_def c_string_def bytes_from_def registry_ok_def)
  have ok1: "registry_ok w1"
    using ok rb by (cases "remote w"; cases "current w") (auto simp: w1_def release_def registry_ok_def heap_ok_def valid_string_def)
  have rel: "blocks w1 c = None" if "remote w = Ptr c off" for c off
    using that by (simp add: w1_def release_def)
  show ?thesis using s1 fr rs ok1 True rel by (auto simp: w1_def)
next
  case False
  with arg have cs: "c_string w a = Inr A" and d: "blk_of a \<noteq> blk_of (remote w)" by auto
  have vc: "valid_string w (remote w)" using ok by (auto simp: registry_ok_def)
  note rb = registry_blocks[OF ok]
  obtain b off xs where a: "a = Ptr b off" and live: "blocks w b = Some xs"
    using c_string_live[OF cs] by blast
  have bl: "b < next_blk w" using ok live heap_ok_live by (auto simp: registry_ok_def)
  have nn: "NUL \<notin> set A" using cs c_string_no_NUL by blast
  define w1 where "w1 = (release (remote w) w)\<lparr>blocks := (blocks (release (remote w) w))(next_blk w \<mapsto> A @ [NUL]), next_blk := Suc (next_blk w), remote := Ptr (next_blk w) 0\<rparr>"
  have s1: "set_remote_charset a w = Inr w1"
    unfolding w1_def by (rule set_remote_charset_eq[OF vc cs d])
  have fr: "w1 = w\<lparr>blocks := blocks w1, next_blk := next_blk w1, remote := remote w1\<rparr>"
    by (cases "remote w") (simp_all add: w1_def release_def)
  have rs: "c_string w1 (current w1) = c_string w (current w)"
    using rb ok by (cases "remote w"; cases "current w") (auto simp: w1_def release_def c_string_def bytes_from_def registry_ok_def)
  have ok1: "registry_ok w1"
    using ok rb by (cases "remote w"; cases "current w") (auto simp: w1_def release_def registry_ok_def heap_ok_def valid_string_def)
  have c1: "remote w1 = Ptr (next_blk w) 0" by (simp add: w1_def)
  have own: "blocks w1 b = blocks w b"
    using bl d a by (cases "remote w") (auto simp: w1_def release_def)
  have priv: "c_string (w1\<lparr>blocks := (blocks w1)(b := x)\<rparr>) (remote w1) = Inr A" for x
    using bl by (cases "remote w") (auto simp: w1_def release_def c_string_def bytes_from_def takeWhile_NUL_id nn)
  have cur: "c_string w1 (remote w1) = Inr A"
    by (cases "remote w") (auto simp: w1_def release_def c_string_def bytes_from_def takeWhile_NUL_id nn)
  have rel: "blocks w1 c = None" if "remote w = Ptr c off" for c off
    using that rb by (auto simp: w1_def release_def)
  show ?thesis using s1 fr rs ok1 False a own priv cur c1 bl rel by auto
qed


text \<open>
  C10. In every well-formed state of the registry, for an argument \<open>a\<close> that is NULL
  or points at a string \<open>A\<close> outside the block of the field being set:
  \<^verbatim>\<open>set_current_charset (a)\<close> returns and changes \<^verbatim>\<open>current\<close> and the heap only; the
  string of \<^verbatim>\<open>remote\<close> is as before; the block \<^verbatim>\<open>current\<close> owned is released; the new
  \<^verbatim>\<open>current\<close> holds \<open>A\<close> in a block other than the argument's, the argument's block is
  untouched, and whatever happens to that block later (\<open>x\<close>: new contents, or its
  release) \<^verbatim>\<open>current\<close> still holds \<open>A\<close>. The same for \<^verbatim>\<open>set_remote_charset\<close> with the
  two fields exchanged. \<^verbatim>\<open>set_utf8_encode (e)\<close> changes the flag \<^verbatim>\<open>utf8_encode\<close> only,
  to \<open>e\<close>.
\<close>

theorem registry_setters_frame:
  assumes "registry_ok w"
  shows "(a = Null \<or> c_string w a = Inr A \<and> blk_of a \<noteq> blk_of (current w) \<longrightarrow>
           (\<exists>w'. set_current_charset a w = Inr w'
              \<and> w' = w\<lparr>blocks := blocks w', next_blk := next_blk w', current := current w'\<rparr>
              \<and> c_string w' (remote w') = c_string w (remote w)
              \<and> (\<forall>c off. current w = Ptr c off \<longrightarrow> blocks w' c = None)
              \<and> (\<forall>b off. a = Ptr b off \<longrightarrow>
                    c_string w' (current w') = Inr A \<and> blk_of (current w') \<noteq> Some b
                    \<and> blocks w' b = blocks w b
                    \<and> (\<forall>x. c_string (w'\<lparr>blocks := (blocks w')(b := x)\<rparr>) (current w') = Inr A))))
       \<and> (a = Null \<or> c_string w a = Inr A \<and> blk_of a \<noteq> blk_of (remote w) \<longrightarrow>
           (\<exists>w'. set_remote_charset a w = Inr w'
              \<and> w' = w\<lparr>blocks := blocks w', next_blk := next_blk w', remote := remote w'\<rparr>
              \<and> c_string w' (current w') = c_string w (current w)
              \<and> (\<forall>c off. remote w = Ptr c off \<longrightarrow> blocks w' c = None)
              \<and> (\<forall>b off. a = Ptr b off \<longrightarrow>
                    c_string w' (remote w') = Inr A \<and> blk_of (remote w') \<noteq> Some b
                    \<and> blocks w' b = blocks w b
                    \<and> (\<forall>x. c_string (w'\<lparr>blocks := (blocks w')(b := x)\<rparr>) (remote w') = Inr A))))
       \<and> set_utf8_encode e w = w\<lparr>utf8_encode := get_utf8_encode (set_utf8_encode e w)\<rparr>
       \<and> get_utf8_encode (set_utf8_encode e w) = e"
proof (intro conjI impI)
  assume h: "a = Null \<or> c_string w a = Inr A \<and> blk_of a \<noteq> blk_of (current w)"
  from set_current_charset_frame[OF assms h]
  show "\<exists>w'. set_current_charset a w = Inr w'
              \<and> w' = w\<lparr>blocks := blocks w', next_blk := next_blk w', current := current w'\<rparr>
              \<and> c_string w' (remote w') = c_string w (remote w)
              \<and> (\<forall>c off. current w = Ptr c off \<longrightarrow> blocks w' c = None)
              \<and> (\<forall>b off. a = Ptr b off \<longrightarrow>
                    c_string w' (current w') = Inr A \<and> blk_of (current w') \<noteq> Some b
                    \<and> blocks w' b = blocks w b
                    \<and> (\<forall>x. c_string (w'\<lparr>blocks := (blocks w')(b := x)\<rparr>) (current w') = Inr A))"
    by blast
next
  assume h: "a = Null \<or> c_string w a = Inr A \<and> blk_of a \<noteq> blk_of (remote w)"
  from set_remote_charset_frame[OF assms h]
  show "\<exists>w'. set_remote_charset a w = Inr w'
              \<and> w' = w\<lparr>blocks := blocks w', next_blk := next_blk w', remote := remote w'\<rparr>
              \<and> c_string w' (current w') = c_string w (current w)
              \<and> (\<forall>c off. remote w = Ptr c off \<longrightarrow> blocks w' c = None)
              \<and> (\<forall>b off. a = Ptr b off \<longrightarrow>
                    c_string w' (remote w') = Inr A \<and> blk_of (remote w') \<noteq> Some b
                    \<and> blocks w' b = blocks w b
                    \<and> (\<forall>x. c_string (w'\<lparr>blocks := (blocks w')(b := x)\<rparr>) (remote w') = Inr A))"
    by blast
qed (simp_all add: set_utf8_encode_def get_utf8_encode_def)

theorem registry_setters_frame_witness:
  "registry_ok sample_iri
   \<and> c_string sample_iri (Ptr 0 0) = Inr ''ISO-8859-1''
   \<and> blk_of (Ptr 0 0) \<noteq> blk_of (current sample_iri)
   \<and> blk_of (Ptr 0 0) \<noteq> blk_of (remote sample_iri)
   \<and> (\<exists>w'. set_current_charset (Ptr 0 0) sample_iri = Inr w'
         \<and> c_string w' (remote w') = Inr ''KOI8-R''
         \<and> blocks w' 2 = None
         \<and> c_string w' (current w') = Inr ''ISO-8859-1''
         \<and> c_string (w'\<lparr>blocks := (blocks w')(0 := None)\<rparr>) (current w') = Inr ''ISO-8859-1'')
   \<and> (\<exists>w'. set_remote_charset (Ptr 0 0) sample_iri = Inr w'
         \<and> c_string w' (current w') = Inr ''UTF-8''
         \<and> blocks w' 1 = None
         \<and> c_string w' (remote w') = Inr ''ISO-8859-1''
         \<and> c_string (w'\<lparr>blocks := (blocks w')(0 := None)\<rparr>) (remote w') = Inr ''ISO-8859-1'')
   \<and> get_utf8_encode (set_utf8_encode True sample_iri) = True"
proof -
  have d: "blk_of (Ptr 0 0) \<noteq> blk_of (current sample_iri)"
    "blk_of (Ptr 0 0) \<noteq> blk_of (remote sample_iri)"
    by (simp_all add: sample_iri_def)
  have r: "c_string sample_iri (remote sample_iri) = Inr ''KOI8-R''"
    "c_string sample_iri (current sample_iri) = Inr ''UTF-8''"
    by (simp_all add: c_string_def bytes_from_def sample_iri_def iri_of_def NUL_def)
  have f: "current sample_iri = Ptr 2 0" "remote sample_iri = Ptr 1 0"
    by (simp_all add: sample_iri_def)
  from registry_setters_frame [OF sample_iri_ok, of "Ptr 0 0" "''ISO-8859-1''" True]
  show ?thesis
    using sample_iri_ok sample_iri_caller_string d r f by (simp, blast)
qed

section \<open>What \<^verbatim>\<open>do_conversion\<close> leaves alone\<close>

lemma heap_frame_refl [simp]: "heap_frame h h"
  by (simp add: heap_frame_def)

lemma heap_frame_trans: "heap_frame h h1 \<Longrightarrow> heap_frame h1 h2 \<Longrightarrow> heap_frame h h2"
  unfolding heap_frame_def by (metis (no_types, lifting) heap.surjective heap.update_convs(1,2))

lemma store_bytes_frame: "store_bytes p cs h = Inr h' \<Longrightarrow> heap_frame h h' \<and> next_blk h' = next_blk h"
  by (cases p) (auto simp: store_bytes_def heap_frame_def split: if_splits option.splits)

lemma store_frame: "store p c h = Inr h' \<Longrightarrow> heap_frame h h' \<and> next_blk h' = next_blk h"
  unfolding store_def by (rule store_bytes_frame)

lemma xmalloc_frame: "xmalloc n h = (p, h') \<Longrightarrow> heap_frame h h' \<and> next_blk h' = Suc (next_blk h) \<and> p = Ptr (next_blk h) 0"
  by (auto simp: xmalloc_def heap_frame_def Let_def)

lemma memcpy_frame: "memcpy d s n h = Inr h' \<Longrightarrow> heap_frame h h' \<and> next_blk h' = next_blk h"
  by (auto simp: memcpy_def split: if_splits sum.splits dest: store_bytes_frame)

lemma xfree_frame: "xfree p h = Inr h' \<Longrightarrow> heap_frame h h' \<and> next_blk h' = next_blk h"
  by (cases p) (auto simp: xfree_def heap_frame_def split: if_splits option.splits)

lemma do_conversion_loop_rule:
  assumes run: "do_conversion_loop ic st = Some r"
    and init: "I st"
    and again: "\<And>st st'. I st \<Longrightarrow> do_conversion_step ic st = Again st' \<Longrightarrow> I st'"
    and ret: "\<And>st r. I st \<Longrightarrow> do_conversion_step ic st = Return r \<Longrightarrow> Q r"
  shows "Q r"
proof -
  have "ic = ic \<longrightarrow> I st \<longrightarrow> Q r"
  proof (rule do_conversion_loop.raw_induct
      [where P = "\<lambda>ic' st r. ic' = ic \<longrightarrow> I st \<longrightarrow> Q r", OF _ run])
    fix f :: "'a iconv_fn \<Rightarrow> 'a conv \<times> 'b heap_scheme \<Rightarrow> (fault + bool \<times> ptr \<times> 'a \<times> 'b heap_scheme) option"
    fix ic' st r
    assume ih: "\<And>ic'' st r. f ic'' st = Some r \<Longrightarrow> ic'' = ic \<longrightarrow> I st \<longrightarrow> Q r"
      and eq: "(case do_conversion_step ic' st of Return r \<Rightarrow> Some r | Again st' \<Rightarrow> f ic' st') = Some r"
    show "ic' = ic \<longrightarrow> I st \<longrightarrow> Q r"
    proof (intro impI)
      assume e: "ic' = ic" and i: "I st"
      show "Q r"
      proof (cases "do_conversion_step ic st")
        case (Return x)
        then show ?thesis using eq e i ret by auto
      next
        case (Again st')
        then have "f ic st' = Some r" using eq e by simp
        moreover have "I st'" using again[OF i Again] .
        ultimately show ?thesis using ih by blast
      qed
    qed
  qed
  then show ?thesis using init by simp
qed

lemma step_frame:
  "do_conversion_step ic (v, h) = Again (v', h') \<Longrightarrow> heap_frame h h'"
  "do_conversion_step ic (v, h) = Return (Inr (ok, p, cd, h')) \<Longrightarrow> heap_frame h h'"
  by (auto simp: do_conversion_step_def Let_def split: prod.splits sum.splits option.splits if_splits list.splits
      dest!: store_bytes_frame store_frame xmalloc_frame memcpy_frame xfree_frame intro: heap_frame_trans)

lemma do_conversion_loop_frame:
  assumes "do_conversion_loop ic (v, h) = Some (Inr (ok, p, cd, h'))"
  shows "heap_frame h h'"
proof -
  let ?Q = "\<lambda>r :: fault + bool \<times> ptr \<times> 'a \<times> 'b heap_scheme.
      \<forall>ok p cd h'. r = Inr (ok, p, cd, h') \<longrightarrow> heap_frame h h'"
  have "?Q (Inr (ok, p, cd, h'))"
  proof (rule do_conversion_loop_rule[OF assms, where I = "\<lambda>st. heap_frame h (snd st)" and Q = ?Q])
    show "heap_frame h (snd (v, h))" by simp
  next
    fix st st' assume "heap_frame h (snd st)" "do_conversion_step ic st = Again st'"
    then show "heap_frame h (snd st')"
      using step_frame(1)[of ic "fst st" "snd st" "fst st'" "snd st'"] heap_frame_trans by auto
  next
    fix st r assume "heap_frame h (snd st)" "do_conversion_step ic st = Return r"
    then show "?Q r"
      using step_frame(2)[of ic "fst st" "snd st"] heap_frame_trans
      by auto
  qed
  then show ?thesis by simp
qed

lemma do_conversion_frame:
  assumes "do_conversion ic cd0 inp h = Some (Inr (ok, p, cd, h'))"
  shows "heap_frame h h'"
  using assms
  by (auto simp: do_conversion_def Let_def split: prod.splits dest!: xmalloc_frame do_conversion_loop_frame intro: heap_frame_trans)

lemma step_conv_inv:
  assumes "conv_inv n0 st" "do_conversion_step ic st = Again st'"
  shows "conv_inv n0 st'"
  using assms
  by (cases st; cases st')
     (auto simp: conv_inv_def do_conversion_step_def Let_def
           split: prod.splits sum.splits option.splits if_splits list.splits
           dest!: store_bytes_frame store_frame xmalloc_frame memcpy_frame xfree_frame)

lemma step_conv_ret:
  assumes "conv_inv n0 st" "do_conversion_step ic st = Return (Inr (True, p, cd, h'))"
  shows "\<exists>b. p = Ptr b 0 \<and> n0 \<le> b"
proof -
  obtain v h where st: "st = (v, h)" by (cases st)
  from assms(1) obtain b where b: "cv_s v = Ptr b 0" "n0 \<le> b"
    by (auto simp: conv_inv_def st)
  from assms(2) have "p = cv_s v"
    by (auto simp: st do_conversion_step_def Let_def
           split: prod.splits sum.splits option.splits if_splits list.splits)
  with b show ?thesis by simp
qed

lemma do_conversion_success_ptr:
  fixes h :: "'h heap_scheme" and cd0 :: 'cd
  assumes "do_conversion ic cd0 inp h = Some (Inr (True, p, cd, h'))"
  shows "\<exists>b. p = Ptr b 0 \<and> next_blk h \<le> b"
proof -
  let ?Q = "\<lambda>r :: fault + bool \<times> ptr \<times> 'cd \<times> 'h heap_scheme.
      \<forall>p cd h'. r = Inr (True, p, cd, h') \<longrightarrow> (\<exists>b. p = Ptr b 0 \<and> next_blk h \<le> b)"
  obtain s h1 where xm: "xmalloc (of_nat (length inp) * 2 + 1) h = (s, h1)"
    by (cases "xmalloc (of_nat (length inp) * 2 + 1) h")
  let ?st = "(\<lparr>cv_cd = cd0, cv_in = inp, cv_out = s, cv_outlen = of_nat (length inp) * 2, cv_s = s,
             cv_len = of_nat (length inp) * 2, cv_done = 0\<rparr>, h1)"
  have run: "do_conversion_loop ic ?st = Some (Inr (True, p, cd, h'))"
    using assms xm by (simp add: do_conversion_def Let_def)
  have "?Q (Inr (True, p, cd, h'))"
  proof (rule do_conversion_loop_rule[OF run, where I = "conv_inv (next_blk h)" and Q = ?Q])
    show "conv_inv (next_blk h) ?st"
      using xmalloc_frame[OF xm] by (simp add: conv_inv_def)
  next
    fix st st' :: "'cd conv \<times> 'h heap_scheme"
    assume "conv_inv (next_blk h) st" "do_conversion_step ic st = Again st'"
    then show "conv_inv (next_blk h) st'" by (rule step_conv_inv)
  next
    fix st :: "'cd conv \<times> 'h heap_scheme" and r
    assume "conv_inv (next_blk h) st" "do_conversion_step ic st = Return r"
    then show "?Q r" using step_conv_ret[of "next_blk h" st ic] by auto
  qed
  then show ?thesis by simp
qed


section \<open>Evaluating the samples\<close>

lemmas eval_simps = do_conversion_def xmalloc_def do_conversion_loop.simps do_conversion_step_def
  table_iconv_def tis620_def store_bytes_def store_def memcpy_def xfree_def c_string_def
  bytes_from_def strcmp_eq_def Let_def NUL_def upt_rec

lemma unat_minus_1_size_t: "unat (- 1 :: size_t) = 18446744073709551615"
  by (simp add: unsigned_minus_1_eq_mask mask_eq_exp_minus_1)

lemma sample_remote_to_utf8:
  "\<exists>w'. remote_to_utf8 sample_env (Ptr 0 0) Null sample_host = Some (Inr (True, Ptr 1 0, w'))
       \<and> c_string w' (Ptr 1 0) = Inr [CHR 0xE0, CHR 0xB8, CHR 0x81, CHR ''a'']
       \<and> iconv_log w' = [IconvOpen ''UTF-8'' ''TIS-620'', IconvClose]"
  by (simp add: remote_to_utf8_def sample_env_def sample_host_def iri_of_def eval_simps)


section \<open>The remote transcoder\<close>

lemma heap_frame_log: "heap_frame w w' \<Longrightarrow> iconv_log w' = iconv_log w"
  unfolding heap_frame_def by (metis (no_types, lifting) iri.select_convs(9) heap.update_convs(1,2) iri.surjective)


lemma remote_to_utf8_no_source:
  "opt_encoding_remote w = None \<Longrightarrow> current w = Null \<Longrightarrow>
   remote_to_utf8 E str new0 w = Some (Inr (False, new0, w))"
  by (simp add: remote_to_utf8_def)

lemma remote_to_utf8_source:
  assumes "opt_encoding_remote w = Some r
           \<or> opt_encoding_remote w = None \<and> current w \<noteq> Null \<and> c_string w (current w) = Inr r"
  shows "remote_to_utf8 E str new0 w =
     (case iconv_open E ''UTF-8'' r of
        None \<Rightarrow> Some (Inr (False, new0, w))
      | Some cd \<Rightarrow>
          (let w1 = w\<lparr>iconv_log := iconv_log w @ [IconvOpen ''UTF-8'' r]\<rparr>
           in case c_string w1 str of
                Inl f \<Rightarrow> Some (Inl f)
              | Inr bytes \<Rightarrow>
                  (case do_conversion (iconv E) cd bytes w1 of
                     None \<Rightarrow> None
                   | Some (Inl f) \<Rightarrow> Some (Inl f)
                   | Some (Inr (ret, new, cd1, w2)) \<Rightarrow>
                       (let w3 = w2\<lparr>iconv_log := iconv_log w2 @ [IconvClose]\<rparr>
                        in case strcmp_eq w3 str new of
                             Inl f \<Rightarrow> Some (Inl f)
                           | Inr same \<Rightarrow>
                               if same
                               then (case xfree new w3 of
                                       Inl f \<Rightarrow> Some (Inl f)
                                     | Inr w4 \<Rightarrow> Some (Inr (False, new, w4)))
                               else Some (Inr (ret, new, w3))))))"
  using assms by (auto simp: remote_to_utf8_def)

lemma c_string_log [simp]: "c_string (w\<lparr>iconv_log := l\<rparr>) p = c_string w p"
  by (rule c_string_blocks) simp

lemma remote_to_utf8_handle:
  assumes src: "opt_encoding_remote w = Some r
           \<or> opt_encoding_remote w = None \<and> current w \<noteq> Null \<and> c_string w (current w) = Inr r"
    and op: "iconv_open E ''UTF-8'' r = Some cd"
    and run: "remote_to_utf8 E str new0 w = Some (Inr (ok, p, w'))"
  shows "iconv_log w' = iconv_log w @ [IconvOpen ''UTF-8'' r, IconvClose]
       \<and> (\<exists>bytes ret cd1 w2. c_string w str = Inr bytes
             \<and> do_conversion (iconv E) cd bytes (w\<lparr>iconv_log := iconv_log w @ [IconvOpen ''UTF-8'' r]\<rparr>)
                 = Some (Inr (ret, p, cd1, w2)))"
proof -
  let ?w1 = "w\<lparr>iconv_log := iconv_log w @ [IconvOpen ''UTF-8'' r]\<rparr>"
  from run obtain bytes where b: "c_string w str = Inr bytes"
    unfolding remote_to_utf8_source[OF src] op by (cases "c_string w str") (auto simp: Let_def)
  from run b obtain ret new cd1 w2 where
    dc: "do_conversion (iconv E) cd bytes ?w1 = Some (Inr (ret, new, cd1, w2))"
    unfolding remote_to_utf8_source[OF src] op
    by (cases "do_conversion (iconv E) cd bytes ?w1") (auto simp: Let_def split: sum.splits)
  have l2: "iconv_log w2 = iconv_log w @ [IconvOpen ''UTF-8'' r]"
    using heap_frame_log[OF do_conversion_frame[OF dc]] by simp
  let ?w3 = "w2\<lparr>iconv_log := iconv_log w2 @ [IconvClose]\<rparr>"
  from run b dc have pn: "p = new"
    unfolding remote_to_utf8_source[OF src] op
    by (auto simp: Let_def split: sum.splits if_splits)
  from run b dc have "w' = ?w3 \<or> xfree new ?w3 = Inr w'"
    unfolding remote_to_utf8_source[OF src] op
    by (auto simp: Let_def split: sum.splits if_splits)
  then have "iconv_log w' = iconv_log ?w3"
    using heap_frame_log xfree_frame by blast
  then show ?thesis using l2 b dc pn by auto
qed

section \<open>The locale transcoder and the IDN codec\<close>

lemma open_locale_to_utf8_heap:
  "open_locale_to_utf8 E w = (opened, w1) \<Longrightarrow> next_blk w1 = next_blk w \<and> blocks w1 = blocks w"
  by (auto simp: open_locale_to_utf8_def Let_def split: if_splits option.splits)

text \<open>
  C7, for \<^verbatim>\<open>opt.locale\<close> set to \<open>l\<close>. If \<open>l\<close> equals \<^verbatim>\<open>"utf-8"\<close> up to case,
  \<^verbatim>\<open>locale_to_utf8 (str)\<close> returns \<^verbatim>\<open>str\<close> and the state, heap included, is as before.
  Otherwise, if \<^verbatim>\<open>open_locale_to_utf8\<close> fails it returns \<^verbatim>\<open>str\<close>; if it succeeds and
  \<^verbatim>\<open>do_conversion\<close> returns \<open>ok\<close> and \<open>new\<close>, it returns \<open>new\<close> when \<open>ok\<close> is true, a
  pointer to a block allocated during the call, and \<^verbatim>\<open>str\<close> when \<open>ok\<close> is false. A
  returned pointer other than \<^verbatim>\<open>str\<close> always comes from a successful conversion.
\<close>

theorem locale_to_utf8_results:
  assumes "opt_locale w = Some l"
  shows
  "(strcasecmp_eq l ''utf-8'' \<longrightarrow> locale_to_utf8 E str w = Some (Inr (str, w)))
   \<and> (\<not> strcasecmp_eq l ''utf-8'' \<and> open_locale_to_utf8 E w = (False, w1) \<longrightarrow>
        locale_to_utf8 E str w = Some (Inr (str, w1)))
   \<and> (\<not> strcasecmp_eq l ''utf-8'' \<and> open_locale_to_utf8 E w = (True, w1)
        \<and> locale2utf8 w1 = Some cd \<and> c_string w1 str = Inr bytes
        \<and> do_conversion (iconv E) cd bytes w1 = Some (Inr (ok, new, cd1, w2)) \<longrightarrow>
        locale_to_utf8 E str w = Some (Inr (if ok then new else str, w2\<lparr>locale2utf8 := Some cd1\<rparr>))
        \<and> (ok \<longrightarrow> (\<exists>b. new = Ptr b 0 \<and> next_blk w \<le> b)))
   \<and> (\<forall>q w'. locale_to_utf8 E str w = Some (Inr (q, w')) \<and> q \<noteq> str \<longrightarrow>
        (\<exists>w1 cd bytes cd1 w2. open_locale_to_utf8 E w = (True, w1) \<and> locale2utf8 w1 = Some cd
           \<and> c_string w1 str = Inr bytes
           \<and> do_conversion (iconv E) cd bytes w1 = Some (Inr (True, q, cd1, w2))))"
proof (intro conjI impI allI)
  assume "strcasecmp_eq l ''utf-8''"
  then show "locale_to_utf8 E str w = Some (Inr (str, w))"
    using assms by (simp add: locale_to_utf8_def)
next
  assume "\<not> strcasecmp_eq l ''utf-8'' \<and> open_locale_to_utf8 E w = (False, w1)"
  then show "locale_to_utf8 E str w = Some (Inr (str, w1))"
    using assms by (simp add: locale_to_utf8_def)
next
  assume h: "\<not> strcasecmp_eq l ''utf-8'' \<and> open_locale_to_utf8 E w = (True, w1)
        \<and> locale2utf8 w1 = Some cd \<and> c_string w1 str = Inr bytes
        \<and> do_conversion (iconv E) cd bytes w1 = Some (Inr (ok, new, cd1, w2))"
  then show "locale_to_utf8 E str w = Some (Inr (if ok then new else str, w2\<lparr>locale2utf8 := Some cd1\<rparr>))"
    using assms by (simp add: locale_to_utf8_def)
  assume ok
  with h have "do_conversion (iconv E) cd bytes w1 = Some (Inr (True, new, cd1, w2))" by simp
  from do_conversion_success_ptr[OF this] open_locale_to_utf8_heap[of E w True w1] h
  show "\<exists>b. new = Ptr b 0 \<and> next_blk w \<le> b" by auto
next
  fix q w'
  assume h: "locale_to_utf8 E str w = Some (Inr (q, w')) \<and> q \<noteq> str"
  then show "\<exists>w1 cd bytes cd1 w2. open_locale_to_utf8 E w = (True, w1) \<and> locale2utf8 w1 = Some cd
           \<and> c_string w1 str = Inr bytes
           \<and> do_conversion (iconv E) cd bytes w1 = Some (Inr (True, q, cd1, w2))"
    using assms
    by (auto simp: locale_to_utf8_def split: if_splits prod.splits option.splits sum.splits)
qed

lemma sample_locale_to_utf8:
  "\<exists>w'. locale_to_utf8 sample_env (Ptr 0 0) sample_host = Some (Inr (Ptr 1 0, w'))
       \<and> c_string w' (Ptr 1 0) = Inr [CHR 0xE0, CHR 0xB8, CHR 0x81, CHR ''a'']"
  by (simp add: locale_to_utf8_def open_locale_to_utf8_def strcasecmp_eq_def c_tolower_def
      sample_env_def sample_host_def iri_of_def eval_simps)

text \<open>
  The theorem on the sample: with \<^verbatim>\<open>opt.locale\<close> TIS-620 the call returns a new string,
  which comes from a successful conversion; with \<^verbatim>\<open>opt.locale\<close> \<^verbatim>\<open>"UTF-8"\<close> it returns
  \<^verbatim>\<open>str\<close>.
\<close>

theorem locale_to_utf8_results_witness:
  "opt_locale sample_host = Some ''TIS-620''
   \<and> (\<exists>w'. locale_to_utf8 sample_env (Ptr 0 0) sample_host = Some (Inr (Ptr 1 0, w'))
         \<and> Ptr 1 0 \<noteq> Ptr 0 0
         \<and> (\<exists>w1 cd bytes cd1 w2. open_locale_to_utf8 sample_env sample_host = (True, w1)
               \<and> locale2utf8 w1 = Some cd \<and> c_string w1 (Ptr 0 0) = Inr bytes
               \<and> do_conversion (iconv sample_env) cd bytes w1 = Some (Inr (True, Ptr 1 0, cd1, w2))))
   \<and> opt_locale (sample_host\<lparr>opt_locale := Some ''UTF-8''\<rparr>) = Some ''UTF-8''
   \<and> strcasecmp_eq ''UTF-8'' ''utf-8''
   \<and> locale_to_utf8 sample_env (Ptr 0 0) (sample_host\<lparr>opt_locale := Some ''UTF-8''\<rparr>)
       = Some (Inr (Ptr 0 0, sample_host\<lparr>opt_locale := Some ''UTF-8''\<rparr>))"
proof -
  have l: "opt_locale sample_host = Some ''TIS-620''"
    by (simp add: sample_host_def iri_of_def)
  from sample_locale_to_utf8 obtain w' where
    run: "locale_to_utf8 sample_env (Ptr 0 0) sample_host = Some (Inr (Ptr 1 0, w'))"
    by blast
  have ne: "Ptr 1 0 \<noteq> Ptr 0 0" by simp
  have u: "opt_locale (sample_host\<lparr>opt_locale := Some ''UTF-8''\<rparr>) = Some ''UTF-8''"
    by simp
  have c: "strcasecmp_eq ''UTF-8'' ''utf-8''"
    by (simp add: strcasecmp_eq_def c_tolower_def)
  from locale_to_utf8_results [OF l, where E = sample_env and str = "Ptr 0 0"] run ne
  have a: "\<exists>w1 cd bytes cd1 w2. open_locale_to_utf8 sample_env sample_host = (True, w1)
               \<and> locale2utf8 w1 = Some cd \<and> c_string w1 (Ptr 0 0) = Inr bytes
               \<and> do_conversion (iconv sample_env) cd bytes w1 = Some (Inr (True, Ptr 1 0, cd1, w2))"
    by blast
  from locale_to_utf8_results [OF u, where E = sample_env and str = "Ptr 0 0"] c
  have b: "locale_to_utf8 sample_env (Ptr 0 0) (sample_host\<lparr>opt_locale := Some ''UTF-8''\<rparr>)
       = Some (Inr (Ptr 0 0, sample_host\<lparr>opt_locale := Some ''UTF-8''\<rparr>))"
    by blast
  show ?thesis using l run ne a u c b by blast
qed

text \<open>
  C8. If \<^verbatim>\<open>utf8_encoded\<close> is false and \<^verbatim>\<open>remote_to_utf8\<close> returns false, \<^verbatim>\<open>idn_encode\<close>
  returns NULL. When the IDNA step is reached with the string \<open>s\<close> (the host itself if
  \<^verbatim>\<open>utf8_encoded\<close>, else what \<^verbatim>\<open>remote_to_utf8\<close> produced) and \<^verbatim>\<open>idna_to_ascii_8z\<close> gives the
  status \<open>ret\<close>: any \<open>ret\<close> other than \<^verbatim>\<open>IDNA_SUCCESS\<close> makes \<^verbatim>\<open>idn_encode\<close> return NULL,
  and \<^verbatim>\<open>IDNA_SUCCESS\<close> makes it return a fresh block that holds the library's string.
  Every non-NULL result of \<^verbatim>\<open>idn_encode\<close> comes from a status \<^verbatim>\<open>IDNA_SUCCESS\<close>.
\<close>

theorem idn_encode_results:
  "(remote_to_utf8 E host Null w = Some (Inr (False, p0, w0)) \<longrightarrow>
      idn_encode E host False w = Some (Inr (Null, w0)))
   \<and> ((utf8_encoded \<and> h1 = host \<and> w1 = w
        \<or> \<not> utf8_encoded \<and> remote_to_utf8 E host Null w = Some (Inr (True, h1, w1)))
       \<and> c_string w1 h1 = Inr s \<and> idna_to_ascii_8z E s = (ret, ascii) \<longrightarrow>
       (ret \<noteq> IDNA_SUCCESS \<longrightarrow> idn_encode E host utf8_encoded w = Some (Inr (Null, w1)))
       \<and> (ret = IDNA_SUCCESS \<longrightarrow>
            idn_encode E host utf8_encoded w = Some (Inr (alloc_string ascii w1))
            \<and> fst (alloc_string ascii w1) = Ptr (next_blk w1) 0
            \<and> (NUL \<notin> set ascii \<longrightarrow>
                 result_string (Inr (alloc_string ascii w1)) = Some (Inr ascii))))
   \<and> (\<forall>q w2. idn_encode E host utf8_encoded w = Some (Inr (q, w2)) \<and> q \<noteq> Null \<longrightarrow>
        (\<exists>h1 w1 s ascii. c_string w1 h1 = Inr s \<and> idna_to_ascii_8z E s = (IDNA_SUCCESS, ascii)
           \<and> (q, w2) = alloc_string ascii w1
           \<and> (utf8_encoded \<and> h1 = host \<and> w1 = w
               \<or> \<not> utf8_encoded \<and> remote_to_utf8 E host Null w = Some (Inr (True, h1, w1)))))"
proof (intro conjI impI allI)
  assume "remote_to_utf8 E host Null w = Some (Inr (False, p0, w0))"
  then show "idn_encode E host False w = Some (Inr (Null, w0))"
    by (simp add: idn_encode_def)
next
  assume h: "(utf8_encoded \<and> h1 = host \<and> w1 = w
        \<or> \<not> utf8_encoded \<and> remote_to_utf8 E host Null w = Some (Inr (True, h1, w1)))
       \<and> c_string w1 h1 = Inr s \<and> idna_to_ascii_8z E s = (ret, ascii)"
  {
    assume "ret \<noteq> IDNA_SUCCESS"
    with h show "idn_encode E host utf8_encoded w = Some (Inr (Null, w1))"
      by (auto simp: idn_encode_def idn_encode_toascii_def)
  }
  {
    assume "ret = IDNA_SUCCESS"
    with h show "idn_encode E host utf8_encoded w = Some (Inr (alloc_string ascii w1))"
      by (auto simp: idn_encode_def idn_encode_toascii_def)
  }
  show "fst (alloc_string ascii w1) = Ptr (next_blk w1) 0"
    by (simp add: alloc_string_def Let_def)
  {
    assume "NUL \<notin> set ascii"
    then show "result_string (Inr (alloc_string ascii w1)) = Some (Inr ascii)"
      using c_string_alloc_string[of ascii w1]
      by (cases "alloc_string ascii w1") (auto simp: result_string_def)
  }
next
  fix q w2
  assume h: "idn_encode E host utf8_encoded w = Some (Inr (q, w2)) \<and> q \<noteq> Null"
  show "\<exists>h1 w1 s ascii. c_string w1 h1 = Inr s \<and> idna_to_ascii_8z E s = (IDNA_SUCCESS, ascii)
           \<and> (q, w2) = alloc_string ascii w1
           \<and> (utf8_encoded \<and> h1 = host \<and> w1 = w
               \<or> \<not> utf8_encoded \<and> remote_to_utf8 E host Null w = Some (Inr (True, h1, w1)))"
  proof (cases utf8_encoded)
    case True
    with h have t: "idn_encode_toascii E host w = Inr (q, w2)"
      by (simp add: idn_encode_def)
    from t obtain s ascii where "c_string w host = Inr s" "idna_to_ascii_8z E s = (IDNA_SUCCESS, ascii)"
      "(q, w2) = alloc_string ascii w"
      using h by (auto simp: idn_encode_toascii_def split: sum.splits prod.splits if_splits)
    then show ?thesis using True by blast
  next
    case False
    with h obtain ok new w1 where r: "remote_to_utf8 E host Null w = Some (Inr (ok, new, w1))"
      by (auto simp: idn_encode_def split: option.splits sum.splits)
    with h False have ok: "ok" and t: "idn_encode_toascii E new w1 = Inr (q, w2)"
      by (auto simp: idn_encode_def split: if_splits)
    from t obtain s ascii where "c_string w1 new = Inr s" "idna_to_ascii_8z E s = (IDNA_SUCCESS, ascii)"
      "(q, w2) = alloc_string ascii w1"
      using h by (auto simp: idn_encode_toascii_def split: sum.splits prod.splits if_splits)
    then show ?thesis using r ok False
      by (intro exI[where x = new] exI[where x = w1] exI[where x = s] exI[where x = ascii]) simp
  qed
qed

text \<open>
  The theorem on the sample: the host A1 61 in TIS-620 is transcoded and the table gives
  \<^verbatim>\<open>IDNA_SUCCESS\<close>, so \<^verbatim>\<open>idn_encode\<close> returns the table's string.
\<close>

theorem idn_encode_results_witness:
  "\<exists>w1. remote_to_utf8 sample_env (Ptr 0 0) Null sample_host = Some (Inr (True, Ptr 1 0, w1))
      \<and> c_string w1 (Ptr 1 0) = Inr [CHR 0xE0, CHR 0xB8, CHR 0x81, CHR ''a'']
      \<and> idna_to_ascii_8z sample_env [CHR 0xE0, CHR 0xB8, CHR 0x81, CHR ''a'']
          = (IDNA_SUCCESS, ''xn--a-twf'')
      \<and> idn_encode sample_env (Ptr 0 0) False sample_host
          = Some (Inr (alloc_string ''xn--a-twf'' w1))
      \<and> result_string (Inr (alloc_string ''xn--a-twf'' w1)) = Some (Inr ''xn--a-twf'')"
proof -
  from sample_remote_to_utf8 obtain w1 where
    run: "remote_to_utf8 sample_env (Ptr 0 0) Null sample_host = Some (Inr (True, Ptr 1 0, w1))"
    and cs: "c_string w1 (Ptr 1 0) = Inr [CHR 0xE0, CHR 0xB8, CHR 0x81, CHR ''a'']"
    by blast
  have idna: "idna_to_ascii_8z sample_env [CHR 0xE0, CHR 0xB8, CHR 0x81, CHR ''a'']
      = (IDNA_SUCCESS, ''xn--a-twf'')"
    by (simp add: sample_env_def sample_idna_def c_isascii_def IDNA_SUCCESS_def)
  have nn: "NUL \<notin> set ''xn--a-twf''"
    by (simp add: NUL_def)
  from idn_encode_results
      [where E = sample_env and host = "Ptr 0 0" and w = sample_host and utf8_encoded = False
         and ?h1.0 = "Ptr 1 0" and ?w1.0 = w1 and s = "[CHR 0xE0, CHR 0xB8, CHR 0x81, CHR ''a'']"
         and ret = IDNA_SUCCESS and ascii = "''xn--a-twf''"]
    run cs idna nn
  have "idn_encode sample_env (Ptr 0 0) False sample_host
          = Some (Inr (alloc_string ''xn--a-twf'' w1))
      \<and> result_string (Inr (alloc_string ''xn--a-twf'' w1)) = Some (Inr ''xn--a-twf'')"
    by blast
  with run cs idna show ?thesis by blast
qed

section \<open>The registry stays well formed\<close>

text \<open>
  In every run of \<^verbatim>\<open>do_conversion\<close> that returns without a memory fault, the blocks that
  existed at the call are as they were: the function writes and releases only blocks it
  allocated itself. So every function of the module that returns leaves the registry
  well formed.
\<close>

lemma heap_grows_refl: "heap_ok h \<Longrightarrow> heap_grows h h"
  by (simp add: heap_grows_def)

lemma store_bytes_grows:
  assumes "store_bytes (Ptr b off) cs h1 = Inr h2" "heap_grows h0 h1" "next_blk h0 \<le> b"
  shows "heap_grows h0 h2"
proof (cases "cs = []")
  case True
  then show ?thesis using assms by (simp add: store_bytes_def)
next
  case False
  from assms(1) False obtain xs where live: "blocks h1 b = Some xs"
    and h2: "h2 = h1\<lparr>blocks := (blocks h1)(b \<mapsto> take (unat off) xs @ cs @ drop (unat off + length cs) xs)\<rparr>"
    by (auto simp: store_bytes_def split: option.splits if_splits)
  have fr: "heap_frame h0 h2"
    using assms(2) store_bytes_frame[OF assms(1)] heap_frame_trans by (auto simp: heap_grows_def)
  have "b < next_blk h1" using assms(2) live heap_ok_live by (auto simp: heap_grows_def)
  then have ok: "heap_ok h2" using assms(2) by (auto simp: heap_grows_def heap_ok_def h2)
  show ?thesis using fr ok assms(2,3) by (auto simp: heap_grows_def h2)
qed

lemma xmalloc_grows:
  assumes "xmalloc n h1 = (p, h2)" "heap_grows h0 h1"
  shows "heap_grows h0 h2 \<and> p = Ptr (next_blk h1) 0 \<and> next_blk h0 \<le> next_blk h1"
proof -
  have h2: "h2 = h1\<lparr>blocks := (blocks h1)(next_blk h1 \<mapsto> map (junk h1 (next_blk h1)) [0..<unat n]),
                     next_blk := Suc (next_blk h1)\<rparr>" and p: "p = Ptr (next_blk h1) 0"
    using assms(1) by (auto simp: xmalloc_def Let_def)
  have fr: "heap_frame h0 h2"
    using assms(2) xmalloc_frame[OF assms(1)] heap_frame_trans by (auto simp: heap_grows_def)
  have ok: "heap_ok h2" using assms(2) by (auto simp: heap_grows_def heap_ok_def h2)
  show ?thesis using fr ok assms(2) p by (auto simp: heap_grows_def h2)
qed

lemma alloc_string_grows:
  assumes "alloc_string s h1 = (p, h2)" "heap_grows h0 h1"
  shows "heap_grows h0 h2 \<and> p = Ptr (next_blk h1) 0 \<and> next_blk h0 \<le> next_blk h1"
proof -
  have h2: "h2 = h1\<lparr>blocks := (blocks h1)(next_blk h1 \<mapsto> s @ [NUL]),
                     next_blk := Suc (next_blk h1)\<rparr>" and p: "p = Ptr (next_blk h1) 0"
    using assms(1) by (auto simp: alloc_string_def Let_def)
  have "heap_frame h1 h2" by (simp add: heap_frame_def h2)
  then have fr: "heap_frame h0 h2"
    using assms(2) heap_frame_trans by (auto simp: heap_grows_def)
  have ok: "heap_ok h2" using assms(2) by (auto simp: heap_grows_def heap_ok_def h2)
  show ?thesis using fr ok assms(2) p by (auto simp: heap_grows_def h2)
qed

lemma memcpy_grows:
  assumes "memcpy (Ptr b off) src n h1 = Inr h2" "heap_grows h0 h1" "next_blk h0 \<le> b"
  shows "heap_grows h0 h2"
  using assms by (auto simp: memcpy_def split: if_splits sum.splits intro: store_bytes_grows)

lemma xfree_grows:
  assumes "xfree (Ptr b off) h1 = Inr h2" "heap_grows h0 h1" "next_blk h0 \<le> b"
  shows "heap_grows h0 h2"
proof -
  from assms(1) have h2: "h2 = h1\<lparr>blocks := (blocks h1)(b := None)\<rparr>"
    by (auto simp: xfree_def split: option.splits if_splits)
  have fr: "heap_frame h0 h2"
    using assms(2) xfree_frame[OF assms(1)] heap_frame_trans by (auto simp: heap_grows_def)
  have ok: "heap_ok h2" using assms(2) by (auto simp: heap_grows_def heap_ok_def h2)
  show ?thesis using fr ok assms(2,3) by (auto simp: heap_grows_def h2)
qed


lemma step_conv_safe:
  assumes safe: "conv_safe h0 st" and step: "do_conversion_step ic st = Again st'"
  shows "conv_safe h0 st'"
proof -
  obtain v h where st: "st = (v, h)" by (cases st)
  from safe obtain bs bo off where g: "heap_grows h0 h"
    and s: "cv_s v = Ptr bs 0" "next_blk h0 \<le> bs"
    and out: "cv_out v = Ptr bo off" "next_blk h0 \<le> bo"
    by (auto simp: conv_safe_def st)
  obtain cd1 consumed produced err where
    ic: "ic (cv_cd v) (cv_in v) (unat (cv_outlen v)) = (cd1, consumed, produced, err)"
    by (cases "ic (cv_cd v) (cv_in v) (unat (cv_outlen v))") auto
  from step obtain h1 where s1: "store_bytes (Ptr bo off) produced h = Inr h1"
    by (cases "store_bytes (Ptr bo off) produced h")
       (auto simp: st do_conversion_step_def ic out)
  have g1: "heap_grows h0 h1" using s1 g out(2) by (rule store_bytes_grows)
  from step obtain e where e: "err = Some e"
    by (cases err) (auto simp: st do_conversion_step_def ic out s1 Let_def split: sum.splits)
  show ?thesis
  proof (cases "e = EINVAL \<or> e = EILSEQ")
    case True
    from step True obtain c rest where dr: "drop consumed (cv_in v) = c # rest"
      by (cases "drop consumed (cv_in v)")
         (auto simp: st do_conversion_step_def ic out s1 e Let_def)
    from step True dr obtain h2 where
      s2: "store_bytes (Ptr bo (off + of_nat (length produced))) [c] h1 = Inr h2"
      and st': "st' = (v\<lparr>cv_cd := cd1, cv_in := rest,
            cv_out := Ptr bo (off + of_nat (length produced) + 1),
            cv_outlen := cv_outlen v - of_nat (length produced) - 1\<rparr>, h2)"
      by (cases "store_bytes (Ptr bo (off + of_nat (length produced))) [c] h1")
         (auto simp: st do_conversion_step_def ic out s1 e Let_def store_def)
    have g2: "heap_grows h0 h2" using s2 g1 out(2) by (rule store_bytes_grows)
    show ?thesis using g2 s out(2) by (simp add: conv_safe_def st')
  next
    case False
    with step have big: "e = E2BIG"
      by (auto simp: st do_conversion_step_def ic out s1 e Let_def split: if_splits)
    let ?outlen2 = "cv_len v + of_nat (length (drop consumed (cv_in v))) * 2"
    obtain new h2 where xm: "xmalloc (?outlen2 + 1) h1 = (new, h2)"
      by (cases "xmalloc (?outlen2 + 1) h1")
    from xmalloc_grows[OF xm g1] have g2: "heap_grows h0 h2" and nw: "new = Ptr (next_blk h1) 0"
      and nb: "next_blk h0 \<le> next_blk h1" by auto
    from step big xm obtain h3 where mc: "memcpy (Ptr (next_blk h1) 0) (Ptr bs 0) (cv_len v) h2 = Inr h3"
      by (cases "memcpy (Ptr (next_blk h1) 0) (Ptr bs 0) (cv_len v) h2")
         (auto simp: st do_conversion_step_def ic out s1 e Let_def s nw)
    have g3: "heap_grows h0 h3" using mc g2 nb by (rule memcpy_grows)
    from step big xm mc obtain h4 where fr: "xfree (Ptr bs 0) h3 = Inr h4"
      and st': "st' = (v\<lparr>cv_cd := cd1, cv_in := drop consumed (cv_in v),
            cv_out := Ptr (next_blk h1) (0 + cv_len v), cv_outlen := ?outlen2,
            cv_s := Ptr (next_blk h1) 0, cv_len := ?outlen2, cv_done := cv_len v\<rparr>, h4)"
      by (cases "xfree (Ptr bs 0) h3")
         (auto simp: st do_conversion_step_def ic out s1 e Let_def s nw)
    have g4: "heap_grows h0 h4" using fr g3 s(2) by (rule xfree_grows)
    show ?thesis using g4 nb by (simp add: conv_safe_def st')
  qed
qed

lemma step_conv_safe_ret:
  assumes safe: "conv_safe h0 st" and step: "do_conversion_step ic st = Return (Inr (ok, p, cd, h'))"
  shows "heap_grows h0 h' \<and> (\<exists>b off. p = Ptr b off \<and> next_blk h0 \<le> b)"
proof -
  obtain v h where st: "st = (v, h)" by (cases st)
  from safe obtain bs bo off where g: "heap_grows h0 h"
    and s: "cv_s v = Ptr bs 0" "next_blk h0 \<le> bs"
    and out: "cv_out v = Ptr bo off" "next_blk h0 \<le> bo"
    by (auto simp: conv_safe_def st)
  obtain cd1 consumed produced err where
    ic: "ic (cv_cd v) (cv_in v) (unat (cv_outlen v)) = (cd1, consumed, produced, err)"
    by (cases "ic (cv_cd v) (cv_in v) (unat (cv_outlen v))") auto
  from step obtain h1 where s1: "store_bytes (Ptr bo off) produced h = Inr h1"
    by (cases "store_bytes (Ptr bo off) produced h")
       (auto simp: st do_conversion_step_def ic out)
  have g1: "heap_grows h0 h1" using s1 g out(2) by (rule store_bytes_grows)
  show ?thesis
  proof (cases err)
    case None
    with step obtain w where "store_bytes (Ptr bs w) [NUL] h1 = Inr h'" and p: "p = Ptr bs 0"
      by (auto simp: st do_conversion_step_def ic out s1 Let_def store_def s split: sum.splits)
    then have "heap_grows h0 h'" using g1 s(2) store_bytes_grows by blast
    then show ?thesis using p s(2) by simp
  next
    case (Some e)
    with step have "h' = h1" and "p = Ptr bo (off + of_nat (length produced))"
      by (auto simp: st do_conversion_step_def ic out s1 Let_def s
          split: sum.splits if_splits list.splits prod.splits)
    then show ?thesis using g1 out(2) by simp
  qed
qed

lemma do_conversion_grows:
  fixes h :: "'h heap_scheme" and cd0 :: 'cd
  assumes ok: "heap_ok h" and run: "do_conversion ic cd0 inp h = Some (Inr (r, p, cd, h'))"
  shows "heap_grows h h' \<and> (\<exists>b off. p = Ptr b off \<and> next_blk h \<le> b)"
proof -
  let ?Q = "\<lambda>x :: fault + bool \<times> ptr \<times> 'cd \<times> 'h heap_scheme.
      \<forall>r p cd h'. x = Inr (r, p, cd, h') \<longrightarrow>
        heap_grows h h' \<and> (\<exists>b off. p = Ptr b off \<and> next_blk h \<le> b)"
  obtain s h1 where xm: "xmalloc (of_nat (length inp) * 2 + 1) h = (s, h1)"
    by (cases "xmalloc (of_nat (length inp) * 2 + 1) h")
  let ?st = "(\<lparr>cv_cd = cd0, cv_in = inp, cv_out = s, cv_outlen = of_nat (length inp) * 2, cv_s = s,
             cv_len = of_nat (length inp) * 2, cv_done = 0\<rparr>, h1)"
  have loop: "do_conversion_loop ic ?st = Some (Inr (r, p, cd, h'))"
    using run xm by (simp add: do_conversion_def Let_def)
  have "?Q (Inr (r, p, cd, h'))"
  proof (rule do_conversion_loop_rule[OF loop, where I = "conv_safe h" and Q = ?Q])
    show "conv_safe h ?st"
      using xmalloc_grows[OF xm heap_grows_refl[OF ok]] by (simp add: conv_safe_def)
  next
    fix st st' :: "'cd conv \<times> 'h heap_scheme"
    assume "conv_safe h st" "do_conversion_step ic st = Again st'"
    then show "conv_safe h st'" by (rule step_conv_safe)
  next
    fix st :: "'cd conv \<times> 'h heap_scheme" and x
    assume "conv_safe h st" "do_conversion_step ic st = Return x"
    then show "?Q x" using step_conv_safe_ret[of h st ic] by auto
  qed
  then show ?thesis by simp
qed

lemma registry_ok_cong:
  "blocks w' = blocks w \<Longrightarrow> next_blk w' = next_blk w \<Longrightarrow> remote w' = remote w \<Longrightarrow>
   current w' = current w \<Longrightarrow> registry_ok w' = registry_ok w"
  by (simp add: registry_ok_def heap_ok_def valid_string_blocks[of w' w])

lemma heap_frame_fields:
  "heap_frame w w' \<Longrightarrow> remote w' = remote w \<and> current w' = current w"
  unfolding heap_frame_def
  by (metis (no_types, lifting) iri.select_convs(1,2) heap.update_convs(1,2) iri.surjective)

lemma registry_ok_grows:
  assumes "registry_ok w" "heap_grows w w'"
  shows "registry_ok w'"
proof -
  have f: "remote w' = remote w" "current w' = current w"
    using assms(2) heap_frame_fields by (auto simp: heap_grows_def)
  have keep: "valid_string w p \<Longrightarrow> valid_string w' p" for p
  proof (cases p)
    case Null
    then show ?thesis by (simp add: valid_string_def)
  next
    case (Ptr b off)
    assume v: "valid_string w p"
    then obtain xs where "blocks w b = Some xs" using Ptr by (auto simp: valid_string_def split: option.splits)
    then have "b < next_blk w" using assms(1) heap_ok_live by (auto simp: registry_ok_def)
    then have "blocks w' b = blocks w b" using assms(2) by (simp add: heap_grows_def)
    then show ?thesis using v Ptr by (simp add: valid_string_def)
  qed
  show ?thesis using assms keep f by (auto simp: registry_ok_def heap_grows_def)
qed


lemma parse_charset_grows:
  assumes "heap_ok h" "parse_charset str h = Inr (p, h')"
  shows "heap_grows h h'"
proof -
  note r = heap_grows_refl[OF assms(1)]
  show ?thesis
  proof (cases "h' = h")
    case True
    then show ?thesis using r by simp
  next
    case False
    with assms(2) obtain tok q h1 where al: "alloc_string tok h = (q, h1)"
      and res: "h' = h1 \<or> xfree q h1 = Inr h'"
      by (auto simp: parse_charset_def Let_def split: if_splits sum.splits option.splits prod.splits)
    from alloc_string_grows[OF al r] have g1: "heap_grows h h1" and q: "q = Ptr (next_blk h) 0"
      by auto
    from res show ?thesis
    proof
      assume "h' = h1" then show ?thesis using g1 by simp
    next
      assume "xfree q h1 = Inr h'"
      then show ?thesis using g1 unfolding q by (rule xfree_grows) simp
    qed
  qed
qed

lemma idn_encode_toascii_ok:
  assumes "registry_ok w" "idn_encode_toascii E host w = Inr (p, w')"
  shows "registry_ok w'"
proof -
  have ok: "heap_ok w" using assms(1) by (simp add: registry_ok_def)
  have "heap_grows w w'"
    using assms(2) alloc_string_grows[OF _ heap_grows_refl[OF ok]] heap_grows_refl[OF ok]
    by (auto simp: idn_encode_toascii_def split: sum.splits prod.splits if_splits)
  then show ?thesis using assms(1) registry_ok_grows by blast
qed

lemma idn_decode_ok:
  assumes "registry_ok w" "idn_decode E host w = Inr (p, w')"
  shows "registry_ok w'"
proof -
  have ok: "heap_ok w" using assms(1) by (simp add: registry_ok_def)
  have "heap_grows w w'"
    using assms(2) alloc_string_grows[OF _ heap_grows_refl[OF ok]] heap_grows_refl[OF ok]
    by (auto simp: idn_decode_def split: sum.splits prod.splits if_splits)
  then show ?thesis using assms(1) registry_ok_grows by blast
qed

lemma open_locale_to_utf8_ok:
  assumes "registry_ok w" "open_locale_to_utf8 E w = (r, w1)"
  shows "registry_ok w1"
proof -
  have "blocks w1 = blocks w \<and> next_blk w1 = next_blk w \<and> remote w1 = remote w \<and> current w1 = current w"
    using assms(2) by (auto simp: open_locale_to_utf8_def Let_def split: if_splits option.splits)
  then show ?thesis using assms(1) registry_ok_cong by blast
qed

lemma locale_to_utf8_ok:
  assumes ok: "registry_ok w" and run: "locale_to_utf8 E str w = Some (Inr (p, w'))"
  shows "registry_ok w'"
proof (cases "w' = w")
  case True
  then show ?thesis using ok by simp
next
  case False
  obtain r w1 where op: "open_locale_to_utf8 E w = (r, w1)" by (cases "open_locale_to_utf8 E w")
  have ok1: "registry_ok w1" using ok op by (rule open_locale_to_utf8_ok)
  show ?thesis
  proof (cases "w' = w1")
    case True
    then show ?thesis using ok1 by simp
  next
    case w1: False
    from run False w1 op obtain cd bytes r2 new cd1 w2 where
      dc: "do_conversion (iconv E) cd bytes w1 = Some (Inr (r2, new, cd1, w2))"
      and w': "w' = w2\<lparr>locale2utf8 := Some cd1\<rparr>"
      by (auto simp: locale_to_utf8_def split: option.splits if_splits sum.splits prod.splits)
    have "heap_grows w1 w2" using do_conversion_grows[OF _ dc] ok1 by (simp add: registry_ok_def)
    then have "registry_ok w2" using ok1 registry_ok_grows by blast
    then show ?thesis unfolding w' using registry_ok_cong[of "w2\<lparr>locale2utf8 := Some cd1\<rparr>" w2] by simp
  qed
qed


lemma registry_ok_xfree:
  assumes ok: "registry_ok w" and fr: "xfree (Ptr b off) w = Inr w'"
    and d: "blk_of (remote w) \<noteq> Some b" "blk_of (current w) \<noteq> Some b"
  shows "registry_ok w'"
proof -
  from fr have w': "w' = w\<lparr>blocks := (blocks w)(b := None)\<rparr>"
    by (auto simp: xfree_def split: option.splits if_splits)
  show ?thesis
    using ok d unfolding w'
    by (cases "remote w"; cases "current w")
       (auto simp: registry_ok_def heap_ok_def valid_string_def)
qed

lemma registry_below:
  assumes "registry_ok w" "next_blk w \<le> b"
  shows "blk_of (remote w) \<noteq> Some b" "blk_of (current w) \<noteq> Some b"
proof -
  have "valid_string w p \<Longrightarrow> blk_of p \<noteq> Some b" for p
  proof (cases p)
    case Null
    then show ?thesis by simp
  next
    case (Ptr c off)
    assume "valid_string w p"
    then obtain xs where "blocks w c = Some xs"
      using Ptr by (auto simp: valid_string_def split: option.splits)
    then have "c < next_blk w" using assms(1) heap_ok_live by (auto simp: registry_ok_def)
    then show ?thesis using assms(2) Ptr by simp
  qed
  then show "blk_of (remote w) \<noteq> Some b" "blk_of (current w) \<noteq> Some b"
    using assms(1) by (auto simp: registry_ok_def)
qed

lemma remote_to_utf8_ok:
  assumes ok: "registry_ok w" and run: "remote_to_utf8 E str new0 w = Some (Inr (r, p, w'))"
  shows "registry_ok w'"
proof (cases "w' = w")
  case True
  then show ?thesis using ok by simp
next
  case False
  from run False obtain src where
    src: "opt_encoding_remote w = Some src
           \<or> opt_encoding_remote w = None \<and> current w \<noteq> Null \<and> c_string w (current w) = Inr src"
    by (auto simp: remote_to_utf8_def split: option.splits if_splits sum.splits)
  from run False obtain cd where op: "iconv_open E ''UTF-8'' src = Some cd"
    unfolding remote_to_utf8_source[OF src] by (auto split: option.splits)
  let ?w1 = "w\<lparr>iconv_log := iconv_log w @ [IconvOpen ''UTF-8'' src]\<rparr>"
  have ok1: "registry_ok ?w1" using ok registry_ok_cong[of ?w1 w] by simp
  from run obtain bytes r2 new cd1 w2 where
    dc: "do_conversion (iconv E) cd bytes ?w1 = Some (Inr (r2, new, cd1, w2))"
    and res: "w' = w2\<lparr>iconv_log := iconv_log w2 @ [IconvClose]\<rparr>
              \<or> xfree new (w2\<lparr>iconv_log := iconv_log w2 @ [IconvClose]\<rparr>) = Inr w'"
    unfolding remote_to_utf8_source[OF src] op
    by (auto simp: Let_def split: sum.splits option.splits if_splits)
  let ?w3 = "w2\<lparr>iconv_log := iconv_log w2 @ [IconvClose]\<rparr>"
  from do_conversion_grows[OF _ dc] ok1 obtain b off where g: "heap_grows ?w1 w2"
    and nw: "new = Ptr b off" and nb: "next_blk ?w1 \<le> b"
    by (auto simp: registry_ok_def)
  have ok2: "registry_ok w2" using ok1 g by (rule registry_ok_grows)
  have ok3: "registry_ok ?w3" using ok2 registry_ok_cong[of ?w3 w2] by simp
  from res show ?thesis
  proof
    assume "w' = ?w3" then show ?thesis using ok3 by simp
  next
    assume fr: "xfree new ?w3 = Inr w'"
    have f: "remote ?w3 = remote ?w1" "current ?w3 = current ?w1"
      using g heap_frame_fields[of ?w1 w2] by (auto simp: heap_grows_def)
    from registry_below[OF ok1 nb] have "blk_of (remote ?w3) \<noteq> Some b" "blk_of (current ?w3) \<noteq> Some b"
      unfolding f by auto
    with ok3 fr[unfolded nw] show ?thesis by (rule registry_ok_xfree)
  qed
qed

lemma idn_encode_ok:
  assumes ok: "registry_ok w" and run: "idn_encode E host u w = Some (Inr (p, w'))"
  shows "registry_ok w'"
proof (cases u)
  case True
  with run have "idn_encode_toascii E host w = Inr (p, w')" by (simp add: idn_encode_def)
  with ok show ?thesis by (rule idn_encode_toascii_ok)
next
  case False
  with run obtain r new w1 where r: "remote_to_utf8 E host Null w = Some (Inr (r, new, w1))"
    and res: "w' = w1 \<or> idn_encode_toascii E new w1 = Inr (p, w')"
    by (auto simp: idn_encode_def split: option.splits sum.splits if_splits)
  have ok1: "registry_ok w1" using ok r by (rule remote_to_utf8_ok)
  from res show ?thesis using ok1 idn_encode_toascii_ok by blast
qed

lemma set_current_charset_ok:
  assumes ok: "registry_ok w" and run: "set_current_charset a w = Inr w'"
  shows "registry_ok w'"
proof -
  have vc: "valid_string w (current w)" using ok by (simp add: registry_ok_def)
  have "a = Null \<or> (\<exists>A. c_string w a = Inr A \<and> blk_of a \<noteq> blk_of (current w))"
  proof (cases "a = Null")
    case False
    with run obtain A where c: "c_string (release (current w) w) a = Inr A"
      unfolding set_current_charset_def xfree_valid[OF vc]
      by (auto simp: xstrdup_def split: sum.splits)
    from c_string_live[OF c] obtain b off xs where a: "a = Ptr b off"
      and live: "blocks (release (current w) w) b = Some xs" by blast
    have d: "blk_of a \<noteq> blk_of (current w)"
      using live a by (cases "current w") (auto simp: release_def split: if_splits)
    then have "c_string w a = Inr A" using c by (simp add: c_string_release)
    with d show ?thesis by blast
  qed simp
  then obtain A where "a = Null \<or> c_string w a = Inr A \<and> blk_of a \<noteq> blk_of (current w)" by blast
  from set_current_charset_frame[OF ok this] run show ?thesis by auto
qed

lemma set_remote_charset_ok:
  assumes ok: "registry_ok w" and run: "set_remote_charset a w = Inr w'"
  shows "registry_ok w'"
proof -
  have vc: "valid_string w (remote w)" using ok by (simp add: registry_ok_def)
  have "a = Null \<or> (\<exists>A. c_string w a = Inr A \<and> blk_of a \<noteq> blk_of (remote w))"
  proof (cases "a = Null")
    case False
    with run obtain A where c: "c_string (release (remote w) w) a = Inr A"
      unfolding set_remote_charset_def xfree_valid[OF vc]
      by (auto simp: xstrdup_def split: sum.splits)
    from c_string_live[OF c] obtain b off xs where a: "a = Ptr b off"
      and live: "blocks (release (remote w) w) b = Some xs" by blast
    have d: "blk_of a \<noteq> blk_of (remote w)"
      using live a by (cases "remote w") (auto simp: release_def split: if_splits)
    then have "c_string w a = Inr A" using c by (simp add: c_string_release)
    with d show ?thesis by blast
  qed simp
  then obtain A where "a = Null \<or> c_string w a = Inr A \<and> blk_of a \<noteq> blk_of (remote w)" by blast
  from set_remote_charset_frame[OF ok this] run show ?thesis by auto
qed

lemma valid_string_c_string:
  "valid_string h p \<Longrightarrow> p \<noteq> Null \<Longrightarrow> \<exists>A. c_string h p = Inr A"
  by (cases p) (auto simp: valid_string_def c_string_def bytes_from_def split: option.splits)

lemma set_remote_as_current_ok:
  assumes ok: "registry_ok w"
  shows "\<exists>w'. set_remote_as_current w = Inr w' \<and> registry_ok w'"
proof -
  have vr: "valid_string w (remote w)" and vc: "valid_string w (current w)"
    using ok by (auto simp: registry_ok_def)
  note rb = registry_blocks[OF ok]
  show ?thesis
  proof (cases "current w = Null")
    case True
    have "registry_ok ((release (remote w) w)\<lparr>remote := Null\<rparr>)"
      using ok True by (cases "remote w") (auto simp: release_def registry_ok_def heap_ok_def valid_string_def)
    then show ?thesis using set_remote_as_current_Null[OF vr True] by simp
  next
    case False
    from valid_string_c_string[OF vc False] obtain A where cs: "c_string w (current w) = Inr A" ..
    have d: "blk_of (current w) \<noteq> blk_of (remote w)"
      using rb(3) False by (cases "remote w"; cases "current w") auto
    let ?w' = "(release (remote w) w)\<lparr>blocks := (blocks (release (remote w) w))(next_blk w \<mapsto> A @ [NUL]),
                  next_blk := Suc (next_blk w), remote := Ptr (next_blk w) 0\<rparr>"
    have "registry_ok ?w'"
      using ok rb False d
      by (cases "remote w"; cases "current w")
         (auto simp: release_def registry_ok_def heap_ok_def valid_string_def)
    then show ?thesis using set_remote_as_current_eq[OF vr cs d] by simp
  qed
qed


lemma set_current_as_locale_ok:
  assumes ok: "registry_ok w" and run: "set_current_as_locale w = Inr w'"
  shows "registry_ok w'"
proof -
  have vc: "valid_string w (current w)" using ok by (auto simp: registry_ok_def)
  note rb = registry_blocks[OF ok]
  from run obtain l where
    w': "w' = (release (current w) w)\<lparr>blocks := (blocks (release (current w) w))(next_blk w \<mapsto> l @ [NUL]),
              next_blk := Suc (next_blk w), current := Ptr (next_blk w) 0\<rparr>"
    unfolding set_current_as_locale_def xfree_valid[OF vc]
    by (cases "current w")
       (auto simp: alloc_string_def Let_def release_def split: option.splits)
  show ?thesis
    unfolding w' using ok rb
    by (cases "remote w"; cases "current w")
       (auto simp: release_def registry_ok_def heap_ok_def valid_string_def)
qed


lemma iri_of_ok: "registry_ok (iri_of ss loc enc)"
  by (simp add: registry_ok_def heap_ok_def valid_string_def iri_of_def)

theorem registry_ok_invariant:
  assumes "registry_ok w"
  shows "(parse_charset str w = Inr (p, w') \<longrightarrow> registry_ok w')
       \<and> (locale_to_utf8 E str w = Some (Inr (p, w')) \<longrightarrow> registry_ok w')
       \<and> (remote_to_utf8 E str new0 w = Some (Inr (r, p, w')) \<longrightarrow> registry_ok w')
       \<and> (idn_encode E str u w = Some (Inr (p, w')) \<longrightarrow> registry_ok w')
       \<and> (idn_decode E str w = Inr (p, w') \<longrightarrow> registry_ok w')
       \<and> (set_current_charset a w = Inr w' \<longrightarrow> registry_ok w')
       \<and> (set_current_as_locale w = Inr w' \<longrightarrow> registry_ok w')
       \<and> (set_remote_charset a w = Inr w' \<longrightarrow> registry_ok w')
       \<and> (set_remote_as_current w = Inr w' \<longrightarrow> registry_ok w')
       \<and> registry_ok (set_utf8_encode e w) \<and> registry_ok (reset_utf8_encode w)
       \<and> registry_ok (set_ugly_no_encode e w)"
proof -
  have ok: "heap_ok w" using assms by (simp add: registry_ok_def)
  have 1: "parse_charset str w = Inr (p, w') \<longrightarrow> registry_ok w'"
    by (intro impI) (rule registry_ok_grows[OF assms parse_charset_grows[OF ok]])
  have 9: "set_remote_as_current w = Inr w' \<longrightarrow> registry_ok w'"
  proof
    assume a: "set_remote_as_current w = Inr w'"
    from set_remote_as_current_ok[OF assms] obtain w2 where
      "set_remote_as_current w = Inr w2 \<and> registry_ok w2" ..
    with a show "registry_ok w'" by simp
  qed
  have "registry_ok (set_utf8_encode e w) = registry_ok w"
    "registry_ok (reset_utf8_encode w) = registry_ok w"
    "registry_ok (set_ugly_no_encode e w) = registry_ok w"
    by (rule registry_ok_cong;
        simp add: set_utf8_encode_def reset_utf8_encode_def set_ugly_no_encode_def)+
  then have 10: "registry_ok (set_utf8_encode e w)" "registry_ok (reset_utf8_encode w)"
    "registry_ok (set_ugly_no_encode e w)"
    using assms by simp_all
  have 2: "locale_to_utf8 E str w = Some (Inr (p, w')) \<longrightarrow> registry_ok w'"
    by (intro impI) (rule locale_to_utf8_ok[OF assms])
  have 3: "remote_to_utf8 E str new0 w = Some (Inr (r, p, w')) \<longrightarrow> registry_ok w'"
    by (intro impI) (rule remote_to_utf8_ok[OF assms])
  have 4: "idn_encode E str u w = Some (Inr (p, w')) \<longrightarrow> registry_ok w'"
    by (intro impI) (rule idn_encode_ok[OF assms])
  have 5: "idn_decode E str w = Inr (p, w') \<longrightarrow> registry_ok w'"
    by (intro impI) (rule idn_decode_ok[OF assms])
  have 6: "set_current_charset a w = Inr w' \<longrightarrow> registry_ok w'"
    by (intro impI) (rule set_current_charset_ok[OF assms])
  have 7: "set_current_as_locale w = Inr w' \<longrightarrow> registry_ok w'"
    by (intro impI) (rule set_current_as_locale_ok[OF assms])
  have 8: "set_remote_charset a w = Inr w' \<longrightarrow> registry_ok w'"
    by (intro impI) (rule set_remote_charset_ok[OF assms])
  show ?thesis
    by (intro conjI) (fact 1 2 3 4 5 6 7 8 9 10)+
qed

section \<open>\<^verbatim>\<open>do_conversion\<close> when the output fits the first buffer\<close>

lemma passthrough_Nil [simp]: "passthrough t [] = []"
  by (simp add: passthrough_def)

lemma passthrough_Cons:
  "passthrough t (c # cs) = (case t c of Some img \<Rightarrow> img | None \<Rightarrow> [c]) @ passthrough t cs"
  by (simp add: passthrough_def)

lemma table_conv_fits:
  assumes "length (passthrough t inp) \<le> room"
  shows "\<exists>k out e. table_conv t inp room = (k, out, e) \<and>
           (e = None \<and> out = passthrough t inp
            \<or> (\<exists>c rest. e = Some EILSEQ \<and> drop k inp = c # rest \<and> t c = None
                 \<and> passthrough t inp = out @ c # passthrough t rest))"
  using assms
proof (induction inp arbitrary: room)
  case Nil
  then show ?case by simp
next
  case (Cons c cs)
  show ?case
  proof (cases "t c")
    case None
    then show ?thesis by (simp add: passthrough_Cons)
  next
    case (Some img)
    with Cons.prems have fit: "length img \<le> room" and
      rest: "length (passthrough t cs) \<le> room - length img"
      by (auto simp: passthrough_Cons)
    from Cons.IH[OF rest] obtain k out e where
      tc: "table_conv t cs (room - length img) = (k, out, e)" and
      sp: "e = None \<and> out = passthrough t cs
            \<or> (\<exists>c' rest. e = Some EILSEQ \<and> drop k cs = c' # rest \<and> t c' = None
                 \<and> passthrough t cs = out @ c' # passthrough t rest)"
      by blast
    have "table_conv t (c # cs) room = (Suc k, img @ out, e)"
      using Some fit tc by simp
    moreover have "e = None \<and> img @ out = passthrough t (c # cs)
            \<or> (\<exists>c' rest. e = Some EILSEQ \<and> drop (Suc k) (c # cs) = c' # rest \<and> t c' = None
                 \<and> passthrough t (c # cs) = (img @ out) @ c' # passthrough t rest)"
      using sp Some by (auto simp: passthrough_Cons)
    ultimately show ?thesis by blast
  qed
qed


lemma unat_of_nat_small: "n < 2 ^ 64 \<Longrightarrow> unat (of_nat n :: size_t) = n"
  by (simp add: unat_of_nat)

lemma store_bytes_at:
  fixes h :: "'h heap_scheme"
  assumes blk: "blocks h b = Some (pre @ rest)" and len: "length out \<le> length rest"
    and small: "length pre < 2 ^ 64"
  shows "\<exists>h1. store_bytes (Ptr b (of_nat (length pre))) out h = Inr h1
           \<and> blocks h1 = (blocks h)(b \<mapsto> pre @ out @ drop (length out) rest)
           \<and> heap_frame h h1 \<and> next_blk h1 = next_blk h"
proof (cases "out = []")
  case True
  have "(blocks h)(b \<mapsto> pre @ rest) = blocks h" using blk by (simp add: fun_upd_idem)
  then show ?thesis using True by (simp add: store_bytes_def)
next
  case False
  let ?h1 = "h\<lparr>blocks := (blocks h)(b \<mapsto> pre @ out @ drop (length out) rest)\<rparr>"
  have "store_bytes (Ptr b (of_nat (length pre))) out h = Inr ?h1"
    using False blk len by (simp add: store_bytes_def unat_of_nat_small[OF small])
  moreover have "heap_frame h ?h1" by (simp add: heap_frame_def)
  ultimately show ?thesis by simp
qed


lemma word_end:
  "p + m \<le> N \<Longrightarrow> (of_nat N :: size_t) - (of_nat (N - p) - of_nat m) - 0 = of_nat (p + m)"
proof -
  assume "p + m \<le> N"
  then have "(of_nat (N - p) :: size_t) = of_nat N - of_nat p"
    by (intro of_nat_diff) simp
  then show ?thesis by simp
qed

lemma word_room:
  "p + m + 1 \<le> N \<Longrightarrow> (of_nat (N - p) :: size_t) - of_nat m - 1 = of_nat (N - (p + m + 1))"
proof -
  assume a: "p + m + 1 \<le> N"
  then have 1: "(of_nat (N - p) :: size_t) = of_nat N - of_nat p"
    by (intro of_nat_diff) simp
  from a have 2: "(of_nat (N - (p + m + 1)) :: size_t) = of_nat N - of_nat (p + m + 1)"
    by (intro of_nat_diff) simp
  show ?thesis unfolding 1 2 by simp
qed

lemma step_fit_success:
  fixes h :: "'h heap_scheme"
  assumes N: "N + 1 < 2 ^ 64"
    and blk: "blocks h b = Some (pre @ rest)" and len: "length pre + length rest = N + 1"
    and fit: "length pre + length out \<le> N"
    and tc: "table_conv t inp (N - length pre) = (k, out, None)"
  shows "\<exists>h' rest'. do_conversion_step (table_iconv t) (fit_state b N (length pre) inp, h)
             = Return (Inr (True, Ptr b 0, (), h'))
           \<and> blocks h' = (blocks h)(b \<mapsto> pre @ out @ NUL # rest')
           \<and> heap_frame h h' \<and> next_blk h' = next_blk h"
proof -
  have room: "unat (of_nat (N - length pre) :: size_t) = N - length pre"
    using N by (intro unat_of_nat_small) simp
  have l1: "length out \<le> length rest" using len fit by simp
  have sm1: "length pre < 2 ^ 64" using fit N by simp
  from store_bytes_at[OF blk l1 sm1] obtain h1 where
    "store_bytes (Ptr b (of_nat (length pre))) out h = Inr h1
       \<and> blocks h1 = (blocks h)(b \<mapsto> pre @ out @ drop (length out) rest)
       \<and> heap_frame h h1 \<and> next_blk h1 = next_blk h" ..
  then have s1: "store_bytes (Ptr b (of_nat (length pre))) out h = Inr h1"
    and b1: "blocks h1 = (blocks h)(b \<mapsto> pre @ out @ drop (length out) rest)"
    and f1: "heap_frame h h1" "next_blk h1 = next_blk h"
    by simp_all
  have b1': "blocks h1 b = Some ((pre @ out) @ drop (length out) rest)" using b1 by simp
  have l2: "length [NUL] \<le> length (drop (length out) rest)" using len fit by simp
  have sm2: "length (pre @ out) < 2 ^ 64" using fit N by simp
  from store_bytes_at[OF b1' l2 sm2] obtain h2 where
    "store_bytes (Ptr b (of_nat (length (pre @ out)))) [NUL] h1 = Inr h2
       \<and> blocks h2 = (blocks h1)(b \<mapsto> (pre @ out) @ [NUL] @ drop (length [NUL]) (drop (length out) rest))
       \<and> heap_frame h1 h2 \<and> next_blk h2 = next_blk h1" ..
  then have s2: "store_bytes (Ptr b (of_nat (length (pre @ out)))) [NUL] h1 = Inr h2"
    and b2: "blocks h2 = (blocks h1)(b \<mapsto> (pre @ out) @ [NUL] @ drop 1 (drop (length out) rest))"
    and f2: "heap_frame h1 h2" "next_blk h2 = next_blk h1"
    by simp_all
  have e: "(of_nat N :: size_t) - (of_nat (N - length pre) - of_nat (length out)) - 0
      = of_nat (length (pre @ out))"
    using word_end[of "length pre" "length out" N] fit by simp
  have st: "do_conversion_step (table_iconv t) (fit_state b N (length pre) inp, h)
             = Return (Inr (True, Ptr b 0, (), h2))"
    unfolding do_conversion_step_def fit_state_def table_iconv_def
    by (simp only: prod.case conv.simps room tc s1 sum.case Let_def option.case ptr_add.simps
        store_def e s2 add_0)
  have bl: "blocks h2 = (blocks h)(b \<mapsto> pre @ out @ NUL # drop 1 (drop (length out) rest))"
    using b1 b2 by simp
  have fr: "heap_frame h h2" using f1(1) f2(1) by (rule heap_frame_trans)
  show ?thesis
    using st bl fr f1(2) f2(2)
    by (intro exI[where x = h2] exI[where x = "drop 1 (drop (length out) rest)"]) simp
qed

lemma step_fit_invalid:
  fixes h :: "'h heap_scheme"
  assumes N: "N + 1 < 2 ^ 64"
    and blk: "blocks h b = Some (pre @ rest)" and len: "length pre + length rest = N + 1"
    and fit: "length pre + length out + 1 \<le> N"
    and tc: "table_conv t inp (N - length pre) = (k, out, Some EILSEQ)"
    and dr: "drop k inp = c # rin"
  shows "\<exists>h' rest'. do_conversion_step (table_iconv t) (fit_state b N (length pre) inp, h)
             = Again (fit_state b N (length (pre @ out @ [c])) rin, h')
           \<and> blocks h' = (blocks h)(b \<mapsto> (pre @ out @ [c]) @ rest')
           \<and> length (pre @ out @ [c]) + length rest' = N + 1
           \<and> heap_frame h h' \<and> next_blk h' = next_blk h"
proof -
  have room: "unat (of_nat (N - length pre) :: size_t) = N - length pre"
    using N by (intro unat_of_nat_small) simp
  have l1: "length out \<le> length rest" using len fit by simp
  have sm1: "length pre < 2 ^ 64" using fit N by simp
  from store_bytes_at[OF blk l1 sm1] obtain h1 where
    "store_bytes (Ptr b (of_nat (length pre))) out h = Inr h1
       \<and> blocks h1 = (blocks h)(b \<mapsto> pre @ out @ drop (length out) rest)
       \<and> heap_frame h h1 \<and> next_blk h1 = next_blk h" ..
  then have s1: "store_bytes (Ptr b (of_nat (length pre))) out h = Inr h1"
    and b1: "blocks h1 = (blocks h)(b \<mapsto> pre @ out @ drop (length out) rest)"
    and f1: "heap_frame h h1" "next_blk h1 = next_blk h"
    by simp_all
  have b1': "blocks h1 b = Some ((pre @ out) @ drop (length out) rest)" using b1 by simp
  have l2: "length [c] \<le> length (drop (length out) rest)" using len fit by simp
  have sm2: "length (pre @ out) < 2 ^ 64" using fit N by simp
  from store_bytes_at[OF b1' l2 sm2] obtain h2 where
    "store_bytes (Ptr b (of_nat (length (pre @ out)))) [c] h1 = Inr h2
       \<and> blocks h2 = (blocks h1)(b \<mapsto> (pre @ out) @ [c] @ drop (length [c]) (drop (length out) rest))
       \<and> heap_frame h1 h2 \<and> next_blk h2 = next_blk h1" ..
  then have s2: "store_bytes (Ptr b (of_nat (length (pre @ out)))) [c] h1 = Inr h2"
    and b2: "blocks h2 = (blocks h1)(b \<mapsto> (pre @ out) @ [c] @ drop 1 (drop (length out) rest))"
    and f2: "heap_frame h1 h2" "next_blk h2 = next_blk h1"
    by simp_all
  have e1: "(of_nat (length pre) :: size_t) + of_nat (length out) = of_nat (length (pre @ out))"
    by simp
  have e2: "(of_nat (length (pre @ out)) :: size_t) + 1 = of_nat (length (pre @ out @ [c]))"
    by simp
  have e3: "(of_nat (N - length pre) :: size_t) - of_nat (length out) - 1
      = of_nat (N - length (pre @ out @ [c]))"
    using word_room[of "length pre" "length out" N] fit by simp
  have st: "do_conversion_step (table_iconv t) (fit_state b N (length pre) inp, h)
             = Again (fit_state b N (length (pre @ out @ [c])) rin, h2)"
    unfolding do_conversion_step_def fit_state_def table_iconv_def
    by (simp only: prod.case conv.simps room tc s1 sum.case Let_def option.case ptr_add.simps
        store_def e1 e2 e3 s2 dr list.case errno.simps simp_thms if_True if_False conv.update_convs)
  have bl: "blocks h2 = (blocks h)(b \<mapsto> (pre @ out @ [c]) @ drop 1 (drop (length out) rest))"
    using b1 b2 by simp
  have ln: "length (pre @ out @ [c]) + length (drop 1 (drop (length out) rest)) = N + 1"
    using len fit by simp
  have fr: "heap_frame h h2" using f1(1) f2(1) by (rule heap_frame_trans)
  show ?thesis
    using st bl ln fr f1(2) f2(2)
    by (intro exI[where x = h2] exI[where x = "drop 1 (drop (length out) rest)"]) simp
qed


lemma loop_fits:
  fixes h :: "'h heap_scheme"
  assumes N: "N + 1 < 2 ^ 64"
    and blk: "blocks h b = Some (pre @ rest)" and len: "length pre + length rest = N + 1"
    and fit: "length pre + length (passthrough t inp) \<le> N"
  shows "\<exists>h' rest'. do_conversion_loop (table_iconv t) (fit_state b N (length pre) inp, h)
             = Some (Inr (True, Ptr b 0, (), h'))
           \<and> blocks h' = (blocks h)(b \<mapsto> pre @ passthrough t inp @ NUL # rest')
           \<and> heap_frame h h' \<and> next_blk h' = next_blk h"
  using blk len fit
proof (induction "length inp" arbitrary: inp pre rest h rule: less_induct)
  case less
  have room: "length (passthrough t inp) \<le> N - length pre" using less.prems(3) by simp
  from table_conv_fits[OF room] obtain k out e where
    tc: "table_conv t inp (N - length pre) = (k, out, e)" and
    sp: "e = None \<and> out = passthrough t inp
            \<or> (\<exists>c rin. e = Some EILSEQ \<and> drop k inp = c # rin \<and> t c = None
                 \<and> passthrough t inp = out @ c # passthrough t rin)"
    by blast
  from sp show ?case
  proof
    assume a: "e = None \<and> out = passthrough t inp"
    then have fit1: "length pre + length out \<le> N" using less.prems(3) by simp
    from step_fit_success[OF N less.prems(1,2) fit1 tc[unfolded conjunct1[OF a]]]
    obtain h' rest' where
      "do_conversion_step (table_iconv t) (fit_state b N (length pre) inp, h)
             = Return (Inr (True, Ptr b 0, (), h'))
           \<and> blocks h' = (blocks h)(b \<mapsto> pre @ out @ NUL # rest')
           \<and> heap_frame h h' \<and> next_blk h' = next_blk h"
      by (elim exE)
    then show ?thesis
      using a by (intro exI[where x = h'] exI[where x = rest']) (simp add: do_conversion_loop.simps)
  next
    assume "\<exists>c rin. e = Some EILSEQ \<and> drop k inp = c # rin \<and> t c = None
                 \<and> passthrough t inp = out @ c # passthrough t rin"
    then obtain c rin where e: "e = Some EILSEQ" and dr: "drop k inp = c # rin"
      and pt: "passthrough t inp = out @ c # passthrough t rin"
      by (elim exE conjE)
    have fit1: "length pre + length out + 1 \<le> N" using less.prems(3) pt by simp
    from step_fit_invalid[OF N less.prems(1,2) fit1 tc[unfolded e] dr]
    obtain h2 rest2 where
      x: "do_conversion_step (table_iconv t) (fit_state b N (length pre) inp, h)
             = Again (fit_state b N (length (pre @ out @ [c])) rin, h2)
           \<and> blocks h2 = (blocks h)(b \<mapsto> (pre @ out @ [c]) @ rest2)
           \<and> length (pre @ out @ [c]) + length rest2 = N + 1
           \<and> heap_frame h h2 \<and> next_blk h2 = next_blk h"
      by (elim exE)
    have shorter: "length rin < length inp"
    proof -
      have "length (drop k inp) = Suc (length rin)" using dr by simp
      then show ?thesis by simp
    qed
    have blk2: "blocks h2 b = Some ((pre @ out @ [c]) @ rest2)" using x by simp
    have len2: "length (pre @ out @ [c]) + length rest2 = N + 1" using x by simp
    have fit2: "length (pre @ out @ [c]) + length (passthrough t rin) \<le> N"
      using less.prems(3) pt by simp
    from less.hyps[OF shorter blk2 len2 fit2] obtain h' rest' where
      y: "do_conversion_loop (table_iconv t) (fit_state b N (length (pre @ out @ [c])) rin, h2)
             = Some (Inr (True, Ptr b 0, (), h'))
           \<and> blocks h' = (blocks h2)(b \<mapsto> (pre @ out @ [c]) @ passthrough t rin @ NUL # rest')
           \<and> heap_frame h2 h' \<and> next_blk h' = next_blk h2"
      by (elim exE)
    have run: "do_conversion_loop (table_iconv t) (fit_state b N (length pre) inp, h)
             = Some (Inr (True, Ptr b 0, (), h'))"
      using x y by (subst do_conversion_loop.simps) simp
    have bl: "blocks h' = (blocks h)(b \<mapsto> pre @ passthrough t inp @ NUL # rest')"
      using x y pt by simp
    have fr: "heap_frame h h'" using x y heap_frame_trans by blast
    have nb: "next_blk h' = next_blk h" using x y by simp
    show ?thesis using run bl fr nb
      by (intro exI[where x = h'] exI[where x = rest']) simp
  qed
qed


theorem do_conversion_fits:
  fixes h :: "'h heap_scheme"
  assumes fit: "length (passthrough t inp) \<le> 2 * length inp"
    and small: "2 * length inp + 1 < 2 ^ 64"
  shows "\<exists>h' rest. do_conversion (table_iconv t) () inp h
             = Some (Inr (True, Ptr (next_blk h) 0, (), h'))
           \<and> blocks h' = (blocks h)(next_blk h \<mapsto> passthrough t inp @ NUL # rest)
           \<and> heap_frame h h' \<and> next_blk h' = Suc (next_blk h)"
proof -
  define N where "N = 2 * length inp"
  define b where "b = next_blk h"
  define h1 where "h1 = h\<lparr>blocks := (blocks h)(b \<mapsto> map (junk h b) [0..<N + 1]), next_blk := Suc b\<rparr>"
  have N: "N + 1 < 2 ^ 64" using small by (simp add: N_def)
  have w: "(of_nat (length inp) :: size_t) * 2 = of_nat N" by (simp add: N_def)
  have u: "unat (of_nat N + 1 :: size_t) = N + 1"
    using unat_of_nat_small[OF N] by (simp add: add.commute)
  have xm: "xmalloc (of_nat N + 1) h = (Ptr b 0, h1)"
    by (simp add: xmalloc_def Let_def b_def h1_def u)
  have st: "\<lparr>cv_cd = (), cv_in = inp, cv_out = Ptr b 0, cv_outlen = of_nat N, cv_s = Ptr b 0,
             cv_len = of_nat N, cv_done = 0\<rparr> = fit_state b N (length ([] :: string)) inp"
    by (simp add: fit_state_def)
  have dc: "do_conversion (table_iconv t) () inp h
      = do_conversion_loop (table_iconv t) (fit_state b N (length ([] :: string)) inp, h1)"
    unfolding do_conversion_def Let_def w xm prod.case st ..
  have blk: "blocks h1 b = Some ([] @ map (junk h b) [0..<N + 1])" by (simp add: h1_def)
  have len: "length ([] :: string) + length (map (junk h b) [0..<N + 1]) = N + 1" by simp
  have fit': "length ([] :: string) + length (passthrough t inp) \<le> N" using fit by (simp add: N_def)
  from loop_fits[OF N blk len fit'] obtain h' rest' where
    x: "do_conversion_loop (table_iconv t) (fit_state b N (length ([] :: string)) inp, h1)
             = Some (Inr (True, Ptr b 0, (), h'))
           \<and> blocks h' = (blocks h1)(b \<mapsto> [] @ passthrough t inp @ NUL # rest')
           \<and> heap_frame h1 h' \<and> next_blk h' = next_blk h1"
    by (elim exE)
  have f1: "heap_frame h h1" by (simp add: heap_frame_def h1_def)
  have fr: "heap_frame h h'" using f1 x heap_frame_trans by blast
  have bl: "blocks h' = (blocks h)(b \<mapsto> passthrough t inp @ NUL # rest')"
    using x by (simp add: h1_def)
  have nb: "next_blk h' = Suc b" using x by (simp add: h1_def)
  show ?thesis
    using dc x bl fr nb unfolding b_def
    by (intro exI[where x = h'] exI[where x = rest']) simp
qed


lemma passthrough_append: "passthrough t (xs @ ys) = passthrough t xs @ passthrough t ys"
  by (simp add: passthrough_def)

lemma c_string_block:
  "blocks h b = Some (s @ NUL # rest) \<Longrightarrow> NUL \<notin> set s \<Longrightarrow> c_string h (Ptr b 0) = Inr s"
  by (auto simp: c_string_def bytes_from_def takeWhile_tail)

theorem do_conversion_one_invalid_fits:
  fixes h :: "'h heap_scheme"
  assumes inv: "t c = None"
    and fit: "length (passthrough t pre) + 1 + length (passthrough t post)
                \<le> 2 * length (pre @ c # post)"
    and small: "2 * length (pre @ c # post) + 1 < 2 ^ 64"
  shows "\<exists>h' rest. do_conversion (table_iconv t) () (pre @ c # post) h
             = Some (Inr (True, Ptr (next_blk h) 0, (), h'))
           \<and> blocks h' = (blocks h)(next_blk h \<mapsto>
                 passthrough t pre @ c # passthrough t post @ NUL # rest)"
proof -
  have pt: "passthrough t (pre @ c # post) = passthrough t pre @ c # passthrough t post"
    using inv by (simp add: passthrough_append passthrough_Cons)
  have fit': "length (passthrough t (pre @ c # post)) \<le> 2 * length (pre @ c # post)"
    using fit unfolding pt by simp
  from do_conversion_fits[OF fit' small, of h] obtain h' rest where
    "do_conversion (table_iconv t) () (pre @ c # post) h
             = Some (Inr (True, Ptr (next_blk h) 0, (), h'))
           \<and> blocks h' = (blocks h)(next_blk h \<mapsto> passthrough t (pre @ c # post) @ NUL # rest)
           \<and> heap_frame h h' \<and> next_blk h' = Suc (next_blk h)"
    by (elim exE)
  then show ?thesis unfolding pt
    by (intro exI[where x = h'] exI[where x = rest]) simp
qed

section \<open>\<^verbatim>\<open>do_conversion\<close> when the buffer has to grow\<close>

text \<open>
  C1 fails on the code. The TIS-620 byte A1 becomes three bytes of UTF-8, as the first
  line says. For the input A1 the first buffer has room for two bytes, \<^verbatim>\<open>iconv\<close> reports
  \<^verbatim>\<open>E2BIG\<close> with nothing written, and the \<^verbatim>\<open>E2BIG\<close> branch takes the whole old buffer for
  written (\<^verbatim>\<open>done = len\<close>): it copies two bytes that were never written and lets \<^verbatim>\<open>iconv\<close>
  go on behind them. On success the terminator goes to \<^verbatim>\<open>s + len - outlen - done\<close>, which
  is offset 1 here. \<^verbatim>\<open>do_conversion\<close> returns true with the buffer \<open>?\<close> NUL E0 B8 81:
  the string the caller reads is one stray byte, not E0 B8 81. For the input A1 A1 the
  same expression is offset -1: the terminator is written before the buffer.
\<close>

theorem do_conversion_grown_buffer:
  "table_conv tis620 [CHR 0xA1] 3 = (1, [CHR 0xE0, CHR 0xB8, CHR 0x81], None)
   \<and> (\<exists>h'. do_conversion (table_iconv tis620) () [CHR 0xA1] (heap_of [])
              = Some (Inr (True, Ptr 1 0, (), h'))
         \<and> blocks h' 1 = Some [CHR ''?'', NUL, CHR 0xE0, CHR 0xB8, CHR 0x81]
         \<and> c_string h' (Ptr 1 0) = Inr ''?'')
   \<and> do_conversion (table_iconv tis620) () [CHR 0xA1, CHR 0xA1] (heap_of [])
       = Some (Inl OutOfBounds)"
  by (simp add: heap_of_def eval_simps unat_minus_1_size_t)

text \<open>
  C2 fails on the code for inputs whose output does not fit the first buffer. In the
  TIS-620 input A1 DB A1 the byte DB is invalid between two valid bytes; the output
  should be E0 B8 81 DB E0 B8 81. The byte DB is copied, but the second A1 no longer
  fits, the buffer grows as above, and the terminator is written at offset -3, before the
  buffer. For A1 A1 DB the two valid bytes fill the buffer, the invalid-sequence branch
  writes DB into the byte kept for the terminator and \<^verbatim>\<open>outlen--\<close> wraps around, and the
  terminator is written one byte past the end of the buffer.
\<close>

theorem do_conversion_invalid_byte_grown_buffer:
  "do_conversion (table_iconv tis620) () [CHR 0xA1, CHR 0xDB, CHR 0xA1] (heap_of [])
     = Some (Inl OutOfBounds)
   \<and> do_conversion (table_iconv tis620) () [CHR 0xA1, CHR 0xA1, CHR 0xDB] (heap_of [])
     = Some (Inl OutOfBounds)"
  by (simp add: heap_of_def eval_simps unat_minus_1_size_t)

section \<open>\<^verbatim>\<open>remote_to_utf8\<close> when nothing was converted\<close>

lemma strcmp_walk_same: "NUL \<notin> set s \<Longrightarrow> strcmp_walk (s @ NUL # xs) (s @ NUL # ys) = Some True"
  by (induction s) auto

lemma split_at_NUL: "NUL \<in> set ys \<Longrightarrow> \<exists>xs. ys = takeWhile (\<lambda>c. c \<noteq> NUL) ys @ NUL # xs"
  by (induction ys) auto

lemma c_string_bytes_from: "c_string h p = Inr s \<Longrightarrow> \<exists>xs. bytes_from h p = Inr (s @ NUL # xs)"
  using split_at_NUL by (fastforce simp: c_string_def split: sum.splits if_splits)

lemma strcmp_eq_same:
  assumes "c_string h p = Inr s" "c_string h q = Inr s"
  shows "strcmp_eq h p q = Inr True"
proof -
  from c_string_bytes_from[OF assms(1)] obtain xs where x: "bytes_from h p = Inr (s @ NUL # xs)" ..
  from c_string_bytes_from[OF assms(2)] obtain ys where y: "bytes_from h q = Inr (s @ NUL # ys)" ..
  have "NUL \<notin> set s" using assms(1) by (rule c_string_no_NUL)
  then show ?thesis by (simp add: strcmp_eq_def x y strcmp_walk_same)
qed


theorem remote_to_utf8_identical:
  assumes ok: "heap_ok w"
    and src: "opt_encoding_remote w = Some r
           \<or> opt_encoding_remote w = None \<and> current w \<noteq> Null \<and> c_string w (current w) = Inr r"
    and op: "iconv_open E ''UTF-8'' r = Some cd"
    and str: "c_string w str = Inr bytes"
    and dc: "do_conversion (iconv E) cd bytes (w\<lparr>iconv_log := iconv_log w @ [IconvOpen ''UTF-8'' r]\<rparr>)
               = Some (Inr (True, new, cd1, w2))"
    and same: "c_string w2 new = Inr s" "c_string w2 str = Inr s"
  shows "\<exists>b w'. new = Ptr b 0 \<and> next_blk w \<le> b
           \<and> remote_to_utf8 E str new0 w = Some (Inr (False, new, w'))
           \<and> blocks w' = (blocks w2)(b := None)
           \<and> c_string w' str = Inr s"
proof -
  from do_conversion_success_ptr[OF dc] obtain b where b: "new = Ptr b 0" and nb: "next_blk w \<le> b"
    by auto
  let ?w3 = "w2\<lparr>iconv_log := iconv_log w2 @ [IconvClose]\<rparr>"
  let ?w4 = "?w3\<lparr>blocks := (blocks ?w3)(b := None)\<rparr>"
  have cmp: "strcmp_eq ?w3 str new = Inr True"
    by (rule strcmp_eq_same[where s = s]) (simp_all add: same)
  from c_string_live[OF same(1)] b obtain xs where live: "blocks w2 b = Some xs" by auto
  have fr: "xfree new ?w3 = Inr ?w4"
    using live by (simp add: xfree_def b)
  have run: "remote_to_utf8 E str new0 w = Some (Inr (False, new, ?w4))"
    unfolding remote_to_utf8_source[OF src] op using str dc cmp fr by (simp add: Let_def)
  from c_string_live[OF str] obtain bs off ys where sp: "str = Ptr bs off" and sl: "blocks w bs = Some ys"
    by blast
  have "bs < next_blk w" using ok sl by (rule heap_ok_live)
  then have "blk_of str \<noteq> Some b" using nb sp by simp
  then have cs: "c_string ?w4 str = Inr s"
    using same(2) c_string_other_block[of str b ?w3 None] by simp
  show ?thesis using b nb run cs
    by (intro exI[where x = b] exI[where x = ?w4]) simp
qed

lemma passthrough_identity: "passthrough (\<lambda>c. Some [c]) s = s"
  by (induction s) (simp_all add: passthrough_Cons)

theorem remote_to_utf8_same_encoding:
  assumes ok: "heap_ok w"
    and src: "opt_encoding_remote w = Some r
           \<or> opt_encoding_remote w = None \<and> current w \<noteq> Null \<and> c_string w (current w) = Inr r"
    and op: "iconv_open E ''UTF-8'' r = Some ()"
    and ic: "iconv E = table_iconv (\<lambda>c. Some [c])"
    and str: "c_string w str = Inr bytes"
    and small: "2 * length bytes + 1 < 2 ^ 64"
  shows "\<exists>w'. remote_to_utf8 E str new0 w = Some (Inr (False, Ptr (next_blk w) 0, w'))
           \<and> blocks w' = blocks w"
proof -
  let ?w1 = "w\<lparr>iconv_log := iconv_log w @ [IconvOpen ''UTF-8'' r]\<rparr>"
  have fit: "length (passthrough (\<lambda>c. Some [c]) bytes) \<le> 2 * length bytes"
    by (simp add: passthrough_identity)
  from do_conversion_fits[OF fit small, of ?w1] obtain w2 rest where
    x: "do_conversion (table_iconv (\<lambda>c. Some [c])) () bytes ?w1
             = Some (Inr (True, Ptr (next_blk ?w1) 0, (), w2))
           \<and> blocks w2 = (blocks ?w1)(next_blk ?w1 \<mapsto> passthrough (\<lambda>c. Some [c]) bytes @ NUL # rest)
           \<and> heap_frame ?w1 w2 \<and> next_blk w2 = Suc (next_blk ?w1)"
    by (elim exE)
  then have dc: "do_conversion (iconv E) () bytes ?w1 = Some (Inr (True, Ptr (next_blk w) 0, (), w2))"
    and bl: "blocks w2 = (blocks w)(next_blk w \<mapsto> bytes @ NUL # rest)"
    by (simp_all add: ic passthrough_identity)
  have nn: "NUL \<notin> set bytes" using str by (rule c_string_no_NUL)
  have s1: "c_string w2 (Ptr (next_blk w) 0) = Inr bytes"
    by (rule c_string_block[OF _ nn]) (simp add: bl)
  from c_string_live[OF str] obtain bs off ys where sp: "str = Ptr bs off" and sl: "blocks w bs = Some ys"
    by blast
  have lt: "bs < next_blk w" using ok sl by (rule heap_ok_live)
  have "c_string w2 str = c_string (w\<lparr>blocks := (blocks w)(next_blk w := Some (bytes @ NUL # rest))\<rparr>) str"
    by (rule c_string_blocks) (simp add: bl)
  also have "\<dots> = c_string w str"
    by (rule c_string_other_block) (use lt sp in simp)
  finally have s2: "c_string w2 str = Inr bytes" using str by simp
  from remote_to_utf8_identical[OF ok src op str dc s1 s2, of new0] obtain b w' where
    y: "Ptr (next_blk w) 0 = Ptr b 0 \<and> next_blk w \<le> b
           \<and> remote_to_utf8 E str new0 w = Some (Inr (False, Ptr (next_blk w) 0, w'))
           \<and> blocks w' = (blocks w2)(b := None)
           \<and> c_string w' str = Inr bytes"
    by (elim exE)
  have free: "blocks w (next_blk w) = None" using ok by (simp add: heap_ok_def)
  have "blocks w' = blocks w"
    using y bl free by (auto simp: fun_upd_idem)
  with y show ?thesis by (intro exI[where x = w']) simp
qed

section \<open>\<^verbatim>\<open>remote_to_utf8\<close>: when the call returns\<close>

text \<open>
  \<^verbatim>\<open>strcmp\<close> on two terminated strings tells whether they are equal, and a string that was
  there at the call of \<^verbatim>\<open>do_conversion\<close> is there after it.
\<close>

lemma strcmp_walk_strings:
  "NUL \<notin> set s \<Longrightarrow> NUL \<notin> set t \<Longrightarrow> strcmp_walk (s @ NUL # xs) (t @ NUL # ys) = Some (s = t)"
proof (induction s arbitrary: t)
  case Nil
  then show ?case by (cases t) auto
next
  case (Cons a as)
  then show ?case by (cases t) auto
qed

lemma strcmp_eq_strings:
  assumes "c_string h p = Inr s" "c_string h q = Inr t"
  shows "strcmp_eq h p q = Inr (s = t)"
proof -
  from c_string_bytes_from[OF assms(1)] obtain xs where x: "bytes_from h p = Inr (s @ NUL # xs)" ..
  from c_string_bytes_from[OF assms(2)] obtain ys where y: "bytes_from h q = Inr (t @ NUL # ys)" ..
  have "NUL \<notin> set s" "NUL \<notin> set t" using assms by (auto dest: c_string_no_NUL)
  then show ?thesis by (simp add: strcmp_eq_def x y strcmp_walk_strings)
qed

lemma c_string_grows:
  assumes "heap_ok h" "heap_grows h h'" "c_string h p = Inr s"
  shows "c_string h' p = Inr s"
proof -
  from c_string_live[OF assms(3)] obtain b off xs where p: "p = Ptr b off" and live: "blocks h b = Some xs"
    by blast
  have "b < next_blk h" using assms(1) live by (rule heap_ok_live)
  then have "blocks h' b = blocks h b" using assms(2) by (simp add: heap_grows_def)
  then show ?thesis using assms(3) by (simp add: p c_string_def bytes_from_def)
qed

lemma remote_to_utf8_returns:
  fixes w :: "'cd iri"
  assumes ok: "heap_ok w"
    and src: "opt_encoding_remote w = Some r
           \<or> opt_encoding_remote w = None \<and> current w \<noteq> Null \<and> c_string w (current w) = Inr r"
    and op: "iconv_open E ''UTF-8'' r = Some cd"
    and str: "c_string w str = Inr bytes"
    and dc: "do_conversion (iconv E) cd bytes (w\<lparr>iconv_log := iconv_log w @ [IconvOpen ''UTF-8'' r]\<rparr>)
               = Some (Inr (True, new, cd1, w2))"
    and out: "c_string w2 new = Inr out"
  shows "remote_to_utf8 E str new0 w =
           Some (Inr (out \<noteq> bytes, new,
                      (if out = bytes then release new w2 else w2)
                        \<lparr>iconv_log := iconv_log w @ [IconvOpen ''UTF-8'' r, IconvClose]\<rparr>))"
proof -
  let ?w1 = "w\<lparr>iconv_log := iconv_log w @ [IconvOpen ''UTF-8'' r]\<rparr>"
  let ?w3 = "w2\<lparr>iconv_log := iconv_log w2 @ [IconvClose]\<rparr>"
  have ok1: "heap_ok ?w1" using ok by (simp add: heap_ok_def)
  have gr: "heap_grows ?w1 w2" using do_conversion_grows[OF ok1 dc] by simp
  have "c_string ?w1 str = Inr bytes" using str by simp
  then have s2: "c_string w2 str = Inr bytes" using ok1 gr c_string_grows by blast
  have l2: "iconv_log w2 = iconv_log w @ [IconvOpen ''UTF-8'' r]"
    using heap_frame_log[OF do_conversion_frame[OF dc]] by simp
  have cmp: "strcmp_eq ?w3 str new = Inr (bytes = out)"
    by (rule strcmp_eq_strings) (simp_all add: s2 out)
  show ?thesis
  proof (cases "out = bytes")
    case False
    then show ?thesis
      unfolding remote_to_utf8_source[OF src] op using str dc cmp l2 by (auto simp: Let_def)
  next
    case True
    from do_conversion_success_ptr[OF dc] obtain b where b: "new = Ptr b 0" by auto
    from c_string_live[OF out] b obtain xs where live: "blocks w2 b = Some xs" by auto
    have fr: "xfree new ?w3 = Inr (?w3\<lparr>blocks := (blocks ?w3)(b := None)\<rparr>)"
      using live by (simp add: xfree_def b)
    show ?thesis
      unfolding remote_to_utf8_source[OF src] op using str dc cmp l2 fr True
      by (simp add: Let_def release_def b)
  qed
qed

lemma remote_to_utf8_None:
  assumes src: "opt_encoding_remote w = Some r
           \<or> opt_encoding_remote w = None \<and> current w \<noteq> Null \<and> c_string w (current w) = Inr r"
    and op: "iconv_open E ''UTF-8'' r = Some cd"
    and str: "c_string w str = Inr bytes"
  shows "(remote_to_utf8 E str new0 w = None)
       = (do_conversion (iconv E) cd bytes (w\<lparr>iconv_log := iconv_log w @ [IconvOpen ''UTF-8'' r]\<rparr>) = None)"
  unfolding remote_to_utf8_source[OF src] op using str
  by (auto simp: Let_def split: option.splits sum.splits prod.splits if_splits)

text \<open>
  With a table-driven transcoder whose output fits the first buffer and holds no NUL, the
  call returns: true with the transcoded string in a fresh block when it differs from
  \<^verbatim>\<open>str\<close>, false when it does not, and the descriptor is opened and closed in both cases.
\<close>

theorem remote_to_utf8_table_fits:
  assumes ok: "heap_ok w"
    and src: "opt_encoding_remote w = Some r
           \<or> opt_encoding_remote w = None \<and> current w \<noteq> Null \<and> c_string w (current w) = Inr r"
    and op: "iconv_open E ''UTF-8'' r = Some ()"
    and ic: "iconv E = table_iconv t"
    and str: "c_string w str = Inr bytes"
    and fit: "length (passthrough t bytes) \<le> 2 * length bytes"
    and small: "2 * length bytes + 1 < 2 ^ 64"
    and nn: "NUL \<notin> set (passthrough t bytes)"
  shows "\<exists>w'. remote_to_utf8 E str new0 w
                = Some (Inr (passthrough t bytes \<noteq> bytes, Ptr (next_blk w) 0, w'))
           \<and> iconv_log w' = iconv_log w @ [IconvOpen ''UTF-8'' r, IconvClose]
           \<and> (passthrough t bytes \<noteq> bytes \<longrightarrow>
                 c_string w' (Ptr (next_blk w) 0) = Inr (passthrough t bytes))"
proof -
  let ?w1 = "w\<lparr>iconv_log := iconv_log w @ [IconvOpen ''UTF-8'' r]\<rparr>"
  from do_conversion_fits[OF fit small, of ?w1] obtain w2 rest where
    x: "do_conversion (table_iconv t) () bytes ?w1
             = Some (Inr (True, Ptr (next_blk ?w1) 0, (), w2))
           \<and> blocks w2 = (blocks ?w1)(next_blk ?w1 \<mapsto> passthrough t bytes @ NUL # rest)
           \<and> heap_frame ?w1 w2 \<and> next_blk w2 = Suc (next_blk ?w1)"
    by (elim exE)
  then have dc: "do_conversion (iconv E) () bytes ?w1 = Some (Inr (True, Ptr (next_blk w) 0, (), w2))"
    and bl: "blocks w2 = (blocks w)(next_blk w \<mapsto> passthrough t bytes @ NUL # rest)"
    by (simp_all add: ic)
  have out: "c_string w2 (Ptr (next_blk w) 0) = Inr (passthrough t bytes)"
    by (rule c_string_block[OF _ nn]) (simp add: bl)
  let ?w' = "(if passthrough t bytes = bytes then release (Ptr (next_blk w) 0) w2 else w2)
               \<lparr>iconv_log := iconv_log w @ [IconvOpen ''UTF-8'' r, IconvClose]\<rparr>"
  have run: "remote_to_utf8 E str new0 w
               = Some (Inr (passthrough t bytes \<noteq> bytes, Ptr (next_blk w) 0, ?w'))"
    by (rule remote_to_utf8_returns[OF ok src op str dc out])
  have cs: "passthrough t bytes \<noteq> bytes \<longrightarrow> c_string ?w' (Ptr (next_blk w) 0) = Inr (passthrough t bytes)"
    using out by simp
  show ?thesis using run cs by (intro exI[where x = ?w']) simp
qed


section \<open>\<^verbatim>\<open>remote_to_utf8\<close>: the source encoding and the descriptor\<close>

lemma sample_host_string: "c_string sample_host (Ptr 0 0) = Inr [CHR 0xA1, CHR ''a'']"
  by (simp add: c_string_def bytes_from_def sample_host_def iri_of_def NUL_def)

lemma sample_do_conversion:
  "\<exists>w2. do_conversion (iconv sample_env) () [CHR 0xA1, CHR ''a'']
           (sample_host\<lparr>iconv_log := iconv_log sample_host @ [IconvOpen ''UTF-8'' ''TIS-620'']\<rparr>)
          = Some (Inr (True, Ptr 1 0, (), w2))
       \<and> c_string w2 (Ptr 1 0) = Inr [CHR 0xE0, CHR 0xB8, CHR 0x81, CHR ''a'']"
  by (simp add: sample_env_def sample_host_def iri_of_def eval_simps)


text \<open>
  C5. With neither \<^verbatim>\<open>opt.encoding_remote\<close> nor \<^verbatim>\<open>current\<close> set, \<^verbatim>\<open>remote_to_utf8\<close> returns
  false at once: \<^verbatim>\<open>*new\<close> and the state are as before. Otherwise let \<open>r\<close> be
  \<^verbatim>\<open>opt.encoding_remote\<close> if set, else the string of \<^verbatim>\<open>current\<close>.

  \<^item> If \<^verbatim>\<open>iconv_open\<close> has no descriptor from \<open>r\<close> to UTF-8, the call returns false with
    the state as before.
  \<^item> If it has one, \<open>cd\<close>, and \<^verbatim>\<open>str\<close> is a string, the call fails to return exactly when
    \<^verbatim>\<open>do_conversion\<close>, run with \<open>cd\<close> on the bytes of \<^verbatim>\<open>str\<close>, does.
  \<^item> If moreover the heap is well formed and \<^verbatim>\<open>do_conversion\<close> returns true with a
    terminated string \<open>out\<close> at \<^verbatim>\<open>*out\<close>, the call returns: true when \<open>out\<close> differs from
    \<^verbatim>\<open>str\<close>, and false with the buffer released when it does not; \<^verbatim>\<open>*new\<close> is that \<^verbatim>\<open>*out\<close>,
    and in the final state the log has grown by the opening of the descriptor from \<open>r\<close>
    to UTF-8 and its closing.
  \<^item> In every run that returns, whatever \<^verbatim>\<open>do_conversion\<close> returned, the log has grown by
    exactly that opening and that closing, and \<^verbatim>\<open>*new\<close> is the \<^verbatim>\<open>*out\<close> of \<^verbatim>\<open>do_conversion\<close>
    run with \<open>cd\<close>.
\<close>

theorem remote_to_utf8_source_and_handle:
  "(opt_encoding_remote w = None \<and> current w = Null \<longrightarrow>
      remote_to_utf8 E str new0 w = Some (Inr (False, new0, w)))
   \<and> (opt_encoding_remote w = Some r
        \<or> opt_encoding_remote w = None \<and> current w \<noteq> Null \<and> c_string w (current w) = Inr r \<longrightarrow>
        (iconv_open E ''UTF-8'' r = None \<longrightarrow>
           remote_to_utf8 E str new0 w = Some (Inr (False, new0, w)))
      \<and> (\<forall>cd bytes. iconv_open E ''UTF-8'' r = Some cd \<and> c_string w str = Inr bytes \<longrightarrow>
             (remote_to_utf8 E str new0 w = None)
               = (do_conversion (iconv E) cd bytes
                    (w\<lparr>iconv_log := iconv_log w @ [IconvOpen ''UTF-8'' r]\<rparr>) = None)
           \<and> (\<forall>new cd1 w2 out.
                 heap_ok w
                 \<and> do_conversion (iconv E) cd bytes
                      (w\<lparr>iconv_log := iconv_log w @ [IconvOpen ''UTF-8'' r]\<rparr>)
                    = Some (Inr (True, new, cd1, w2))
                 \<and> c_string w2 new = Inr out \<longrightarrow>
                 remote_to_utf8 E str new0 w =
                   Some (Inr (out \<noteq> bytes, new,
                              (if out = bytes then release new w2 else w2)
                                \<lparr>iconv_log := iconv_log w @ [IconvOpen ''UTF-8'' r, IconvClose]\<rparr>))))
      \<and> (\<forall>cd ok p w'. iconv_open E ''UTF-8'' r = Some cd
             \<and> remote_to_utf8 E str new0 w = Some (Inr (ok, p, w')) \<longrightarrow>
             iconv_log w' = iconv_log w @ [IconvOpen ''UTF-8'' r, IconvClose]
             \<and> (\<exists>bytes ret cd1 w2. c_string w str = Inr bytes
                   \<and> do_conversion (iconv E) cd bytes
                        (w\<lparr>iconv_log := iconv_log w @ [IconvOpen ''UTF-8'' r]\<rparr>)
                      = Some (Inr (ret, p, cd1, w2)))))"
proof (intro conjI impI allI)
  assume "opt_encoding_remote w = None \<and> current w = Null"
  then show "remote_to_utf8 E str new0 w = Some (Inr (False, new0, w))"
    by (simp add: remote_to_utf8_no_source)
next
  assume src: "opt_encoding_remote w = Some r
        \<or> opt_encoding_remote w = None \<and> current w \<noteq> Null \<and> c_string w (current w) = Inr r"
    and "iconv_open E ''UTF-8'' r = None"
  then show "remote_to_utf8 E str new0 w = Some (Inr (False, new0, w))"
    by (simp add: remote_to_utf8_source[OF src])
next
  fix cd bytes
  assume src: "opt_encoding_remote w = Some r
        \<or> opt_encoding_remote w = None \<and> current w \<noteq> Null \<and> c_string w (current w) = Inr r"
    and h: "iconv_open E ''UTF-8'' r = Some cd \<and> c_string w str = Inr bytes"
  from h show "(remote_to_utf8 E str new0 w = None)
               = (do_conversion (iconv E) cd bytes
                    (w\<lparr>iconv_log := iconv_log w @ [IconvOpen ''UTF-8'' r]\<rparr>) = None)"
    using remote_to_utf8_None[OF src] by blast
next
  fix cd bytes new cd1 w2 out
  assume src: "opt_encoding_remote w = Some r
        \<or> opt_encoding_remote w = None \<and> current w \<noteq> Null \<and> c_string w (current w) = Inr r"
    and h: "iconv_open E ''UTF-8'' r = Some cd \<and> c_string w str = Inr bytes"
    and g: "heap_ok w
                 \<and> do_conversion (iconv E) cd bytes
                      (w\<lparr>iconv_log := iconv_log w @ [IconvOpen ''UTF-8'' r]\<rparr>)
                    = Some (Inr (True, new, cd1, w2))
                 \<and> c_string w2 new = Inr out"
  from g have ok: "heap_ok w" ..
  from g have dc: "do_conversion (iconv E) cd bytes
                      (w\<lparr>iconv_log := iconv_log w @ [IconvOpen ''UTF-8'' r]\<rparr>)
                    = Some (Inr (True, new, cd1, w2))" by simp
  from g have out: "c_string w2 new = Inr out" by simp
  from h have op: "iconv_open E ''UTF-8'' r = Some cd" and str: "c_string w str = Inr bytes"
    by simp_all
  show "remote_to_utf8 E str new0 w =
                   Some (Inr (out \<noteq> bytes, new,
                              (if out = bytes then release new w2 else w2)
                                \<lparr>iconv_log := iconv_log w @ [IconvOpen ''UTF-8'' r, IconvClose]\<rparr>))"
    by (rule remote_to_utf8_returns[OF ok src op str dc out])
next
  fix cd ok p w'
  assume src: "opt_encoding_remote w = Some r
        \<or> opt_encoding_remote w = None \<and> current w \<noteq> Null \<and> c_string w (current w) = Inr r"
    and h: "iconv_open E ''UTF-8'' r = Some cd \<and> remote_to_utf8 E str new0 w = Some (Inr (ok, p, w'))"
  from remote_to_utf8_handle[OF src] h
  show "iconv_log w' = iconv_log w @ [IconvOpen ''UTF-8'' r, IconvClose]"
    by blast
  from remote_to_utf8_handle[OF src] h
  show "\<exists>bytes ret cd1 w2. c_string w str = Inr bytes
                   \<and> do_conversion (iconv E) cd bytes
                        (w\<lparr>iconv_log := iconv_log w @ [IconvOpen ''UTF-8'' r]\<rparr>)
                      = Some (Inr (ret, p, cd1, w2))"
    by blast
qed

text \<open>
  The theorem on the sample: \<^verbatim>\<open>opt.encoding_remote\<close> is TIS-620, \<^verbatim>\<open>do_conversion\<close> returns
  true with the UTF-8 string, so the call returns true with it, and the descriptor it
  opened is closed.
\<close>

theorem remote_to_utf8_source_and_handle_witness:
  "opt_encoding_remote sample_host = Some ''TIS-620''
   \<and> iconv_open sample_env ''UTF-8'' ''TIS-620'' = Some ()
   \<and> heap_ok sample_host
   \<and> c_string sample_host (Ptr 0 0) = Inr [CHR 0xA1, CHR ''a'']
   \<and> (\<exists>w2. do_conversion (iconv sample_env) () [CHR 0xA1, CHR ''a'']
              (sample_host\<lparr>iconv_log := iconv_log sample_host @ [IconvOpen ''UTF-8'' ''TIS-620'']\<rparr>)
             = Some (Inr (True, Ptr 1 0, (), w2))
          \<and> c_string w2 (Ptr 1 0) = Inr [CHR 0xE0, CHR 0xB8, CHR 0x81, CHR ''a'']
          \<and> remote_to_utf8 sample_env (Ptr 0 0) Null sample_host
             = Some (Inr (True, Ptr 1 0,
                          w2\<lparr>iconv_log := [IconvOpen ''UTF-8'' ''TIS-620'', IconvClose]\<rparr>)))"
proof -
  have src: "opt_encoding_remote sample_host = Some ''TIS-620''"
    by (simp add: sample_host_def iri_of_def)
  have op: "iconv_open sample_env ''UTF-8'' ''TIS-620'' = Some ()"
    by (simp add: sample_env_def)
  have ok: "heap_ok sample_host"
    by (simp add: heap_ok_def sample_host_def iri_of_def)
  have lg: "iconv_log sample_host = []"
    by (simp add: sample_host_def iri_of_def)
  from sample_do_conversion obtain w2 where
    dc: "do_conversion (iconv sample_env) () [CHR 0xA1, CHR ''a'']
           (sample_host\<lparr>iconv_log := iconv_log sample_host @ [IconvOpen ''UTF-8'' ''TIS-620'']\<rparr>)
          = Some (Inr (True, Ptr 1 0, (), w2))"
    and out: "c_string w2 (Ptr 1 0) = Inr [CHR 0xE0, CHR 0xB8, CHR 0x81, CHR ''a'']"
    by blast
  note T = remote_to_utf8_source_and_handle
      [where w = sample_host and E = sample_env and str = "Ptr 0 0" and ?new0.0 = Null
         and r = "''TIS-620''"]
  note T1 = T[THEN conjunct2, THEN mp, OF disjI1, OF src, THEN conjunct2, THEN conjunct1,
              THEN spec, THEN spec, THEN mp, OF conjI, OF op sample_host_string]
  note T2 = T1[THEN conjunct2, THEN spec, THEN spec, THEN spec, THEN spec, THEN mp,
               OF conjI, OF ok conjI, OF dc out]
  have ne: "[CHR 0xE0, CHR 0xB8, CHR 0x81, CHR ''a''] \<noteq> [CHR 0xA1, CHR ''a'']" by simp
  have run: "remote_to_utf8 sample_env (Ptr 0 0) Null sample_host
             = Some (Inr (True, Ptr 1 0,
                          w2\<lparr>iconv_log := [IconvOpen ''UTF-8'' ''TIS-620'', IconvClose]\<rparr>))"
    using T2 ne unfolding lg by simp
  show ?thesis using src op ok sample_host_string dc out run
    by (intro conjI exI[where x = w2]) simp_all
qed

section \<open>\<^verbatim>\<open>remote_to_utf8\<close> when the conversion fails\<close>

text \<open>
  C4 fails on the code when \<^verbatim>\<open>do_conversion\<close> fails. \<^verbatim>\<open>do_conversion\<close> then returns
  false without releasing its buffer, and \<^verbatim>\<open>remote_to_utf8\<close> still compares \<^verbatim>\<open>str\<close> with
  \<^verbatim>\<open>*new\<close>, whose content the comment of \<^verbatim>\<open>do_conversion\<close> calls unspecified. Here the
  five bytes of the buffer (block 1) differ from \<^verbatim>\<open>str\<close>: \<^verbatim>\<open>remote_to_utf8\<close> returns false
  and the buffer is still allocated.
\<close>

theorem remote_to_utf8_failed_conversion:
  "\<exists>w'. remote_to_utf8 failing_env (Ptr 0 0) Null sample_host
           = Some (Inr (False, Ptr 1 0, w'))
      \<and> blocks w' 1 = Some ''?????''"
  by (simp add: remote_to_utf8_def failing_env_def sample_env_def sample_host_def iri_of_def
      eval_simps)

end
